theory Spec2Isabelle
  imports Main "HOL-Library.Sublist"
begin

section \<open>xdress.typefilter: the values the plugin handles\<close>

text \<open>
  A type expression of xdress is a Python value: an identifier string, a tuple or a list
  of type expressions, or something else that is neither a string nor iterable
  (\<^verbatim>\<open>None\<close>, the return type of a constructor, or an integer template argument).
\<close>

datatype pyval = Str string | Tup "pyval list" | Lst "pyval list" | NoneVal | IntVal int

text \<open>
  The exceptions the code can meet. \<open>TypeError\<close> is the one class the plugin catches,
  \<open>KeyError\<close> is what a dictionary raises for an absent key, and \<open>OtherError\<close> stands
  for every exception class that is not a \<open>TypeError\<close>.
\<close>

datatype exn = TypeError | KeyError | OtherError

text \<open>\<^verbatim>\<open>isinstance(el, (list, tuple))\<close> and \<^verbatim>\<open>isinstance(t, str)\<close>.\<close>

fun is_seq :: "pyval \<Rightarrow> bool" where
  "is_seq (Tup els) = True"
| "is_seq (Lst els) = True"
| "is_seq v = False"

fun is_str :: "pyval \<Rightarrow> bool" where
  "is_str (Str s) = True"
| "is_str v = False"

text \<open>Iterating a Python string visits its characters, each a string of length one.\<close>

fun chars_of :: "string \<Rightarrow> pyval list" where
  "chars_of s = map (\<lambda>c. Str [c]) s"

text \<open>
  The elements a \<^verbatim>\<open>for\<close> loop or \<^verbatim>\<open>list.extend\<close> reads from a value. The last
  equation is never reached from the functions below: they iterate lists, tuples and
  strings only.
\<close>

fun items_of :: "pyval \<Rightarrow> pyval list" where
  "items_of (Lst els) = els"
| "items_of (Tup els) = els"
| "items_of (Str s) = chars_of s"
| "items_of v = []"

subsection \<open>\<^verbatim>\<open>_flatten\<close>\<close>

text \<open>
  \<^verbatim>\<open>
  def _flatten(iterable):
      res = []
      try:
          for el in iterable:
              if isinstance(el, (list, tuple)):
                  res.extend(_flatten(el))
                  continue
              res.append(el)
      except TypeError:
          res = iterable
      return res
  \<close>
  \<open>flatten\<close> is the function, \<open>flatten_for\<close> its loop over the elements. A tuple or a
  list is iterated element by element; a string is iterated too, character by
  character (no character is a list or a tuple, so each is appended); for any other value
  the \<^verbatim>\<open>for\<close> statement raises \<open>TypeError\<close>, which is caught, and the value itself is
  returned in place of a list.
\<close>

fun flatten :: "pyval \<Rightarrow> pyval"
  and flatten_for :: "pyval list \<Rightarrow> pyval list" where
  "flatten (Tup els) = Lst (flatten_for els)"
| "flatten (Lst els) = Lst (flatten_for els)"
| "flatten (Str s) = Lst (chars_of s)"
| "flatten NoneVal = NoneVal"
| "flatten (IntVal n) = IntVal n"
| "flatten_for [] = []"
| "flatten_for (el # els) =
     (if is_seq el then items_of (flatten el) @ flatten_for els
      else el # flatten_for els)"

text \<open>
  \<open>inside a v\<close>: the value \<open>a\<close> is an element of the tuple or list \<open>v\<close>, or of a tuple
  or list nested in it at any depth.
\<close>

fun inside :: "pyval \<Rightarrow> pyval \<Rightarrow> bool"
  and inside_list :: "pyval \<Rightarrow> pyval list \<Rightarrow> bool" where
  "inside a (Tup els) = inside_list a els"
| "inside a (Lst els) = inside_list a els"
| "inside a (Str s) = False"
| "inside a NoneVal = False"
| "inside a (IntVal n) = False"
| "inside_list a [] = False"
| "inside_list a (el # els) = (el = a \<or> inside a el \<or> inside_list a els)"

subsection \<open>\<^verbatim>\<open>TypeMatcher.matches\<close> and \<^verbatim>\<open>_match_anywhere\<close>\<close>

text \<open>
  \<open>TypeMatcher\<close> belongs to \<^verbatim>\<open>xdress.typesystem\<close>; the plugin only calls its
  \<^verbatim>\<open>matches\<close> method. A matcher is therefore a parameter here: a function from the
  candidate to what the call does, which is to return a truth value or to raise.
\<close>

type_synonym matcher = "pyval \<Rightarrow> exn + bool"

text \<open>
  \<^verbatim>\<open>[self.matches(i) for i in ...]\<close>: the calls are made from left to right, every one
  of them, and the first that raises ends the comprehension.
\<close>

fun matches_all :: "matcher \<Rightarrow> pyval list \<Rightarrow> exn + bool list" where
  "matches_all m [] = Inr []"
| "matches_all m (i # rest) =
     (case m i of
        Inl e \<Rightarrow> Inl e
      | Inr b \<Rightarrow> (case matches_all m rest of Inl e \<Rightarrow> Inl e | Inr bs \<Rightarrow> Inr (b # bs)))"

text \<open>
  \<^verbatim>\<open>
  def _match_anywhere(self, t):
      try:
          if self.matches(t):
              return True
      except TypeError:
          pass
      else:
          if isinstance(t, str):
              return self.matches(t)
          elif isinstance(t, (tuple, list)):
              return any([self.matches(i) for i in _flatten(t)])
  \<close>
  The result is \<open>Inl e\<close> when exception \<open>e\<close> leaves the function, \<open>Inr (Some b)\<close> when
  it returns the truth value \<open>b\<close>, and \<open>Inr None\<close> when it falls off its end and so
  returns \<^verbatim>\<open>None\<close>. \<open>else_clause\<close> is the \<^verbatim>\<open>else\<close> suite of the \<^verbatim>\<open>try\<close> statement:
  Python runs it only when the \<^verbatim>\<open>try\<close> suite ended without an exception (and without
  returning).
\<close>

definition else_clause :: "matcher \<Rightarrow> pyval \<Rightarrow> exn + bool option" where
  "else_clause m t =
     (if is_str t then
        (case m t of Inl e \<Rightarrow> Inl e | Inr b \<Rightarrow> Inr (Some b))
      else if is_seq t then
        (case matches_all m (items_of (flatten t)) of
           Inl e \<Rightarrow> Inl e
         | Inr bs \<Rightarrow> Inr (Some (list_ex (\<lambda>b. b) bs)))
      else Inr None)"

definition match_anywhere :: "matcher \<Rightarrow> pyval \<Rightarrow> exn + bool option" where
  "match_anywhere m t =
     (case m t of
        Inr True \<Rightarrow> Inr (Some True)
      | Inl TypeError \<Rightarrow> Inr None
      | Inl e \<Rightarrow> Inl e
      | Inr False \<Rightarrow> else_clause m t)"

text \<open>The truth value an \<^verbatim>\<open>if\<close> statement reads from the result: \<^verbatim>\<open>None\<close> is false.\<close>

fun truthy :: "bool option \<Rightarrow> bool" where
  "truthy (Some b) = b"
| "truthy None = False"

section \<open>The description dictionary and the configuration\<close>

text \<open>
  A method key is the tuple \<^verbatim>\<open>(name, arg1, arg2, ...)\<close>; each argument is a tuple
  \<^verbatim>\<open>(name, type)\<close> or \<^verbatim>\<open>(name, type, default)\<close>. \<^verbatim>\<open>m_key[1:]\<close> is the list of
  arguments and \<^verbatim>\<open>arg[1]\<close> the type of one.
\<close>

record param =
  pname :: string
  ptype :: pyval
  pdefault :: "pyval option"

type_synonym method_key = "string \<times> param list"

text \<open>
  A Python dictionary is an association list in iteration order; its keys are distinct.
  A class description has a name, the dictionary of its attributes (name to type) and
  the dictionary of its methods (method key to return type). Its other entries, which
  the plugin neither reads nor writes, are left out.
\<close>

record class_desc =
  name :: string
  attrs :: "(string \<times> pyval) list"
  methods :: "(method_key \<times> pyval) list"

text \<open>
  Modelled from the spec: \<^verbatim>\<open>isclassdesc\<close> of \<^verbatim>\<open>xdress.utils\<close>, which is not among the
  sources. The spec says it tells whether an entity descriptor "represents a class";
  the descriptors of a module are therefore either class descriptions or descriptions
  of something else (a function, a variable), whose content the plugin never reads.
  Where the code tests \<^verbatim>\<open>isclassdesc(desc)\<close>, the functions below distinguish the two
  constructors.
\<close>

datatype desc = ClassDesc class_desc | OtherDesc "(string \<times> pyval) list"

fun isclassdesc :: "desc \<Rightarrow> bool" where
  "isclassdesc (ClassDesc c) = True"
| "isclassdesc (OtherDesc d) = False"

type_synonym module = "(string \<times> desc) list"
type_synonym env = "(string \<times> module) list"

text \<open>
  \<^verbatim>\<open>rc.skiptypes\<close> is the sentinel \<open>NotSpecified\<close>, \<^verbatim>\<open>None\<close>, a dictionary from class
  names to sequences, a list, a tuple, or any other value. The entries are raw patterns
  before \<^verbatim>\<open>setup\<close> and matchers after it.
\<close>

text \<open>
  Modelled from the spec: \<open>NotSpecified\<close> of \<^verbatim>\<open>xdress.utils\<close>, which is not among the
  sources. The spec calls it the "unset" sentinel meaning "do nothing"; the test
  \<^verbatim>\<open>isinstance(rc.skiptypes, NotSpecified)\<close> is taken to hold for the sentinel and for
  no other value.
\<close>

datatype 'p skiptypes =
    NotSpecified
  | NoneCfg
  | DictCfg "(string \<times> 'p list) list"
  | ListCfg "'p list"
  | TupleCfg "'p list"
  | OtherCfg

subsection \<open>\<^verbatim>\<open>XDressPlugin.setup\<close>\<close>

text \<open>
  \<^verbatim>\<open>
  def setup(self, rc):
      if not isinstance(rc.skiptypes, NotSpecified):
          if isinstance(rc.skiptypes, dict):
              _skippers = {}
              for kls in rc.skiptypes.keys():
                  _skippers[kls] = [TypeMatcher(t) for t in rc.skiptypes[kls]]
              rc.skiptypes = _skippers
          elif isinstance(rc.skiptypes, list) or isinstance(rc.skiptypes, tuple):
              rc.skiptypes = [TypeMatcher(t) for t in rc.skiptypes]
              print(rc.skiptypes)
  \<close>
  The constructor \<open>TypeMatcher\<close> is the parameter \<open>mk\<close>. A tuple becomes a list; a
  value of any other kind is left as it is. The values of a dictionary configuration
  are sequences of patterns. (The function is \<open>plugin_setup\<close> here because the theory
  language reserves the word the source uses.)
\<close>

fun plugin_setup :: "(pyval \<Rightarrow> matcher) \<Rightarrow> pyval skiptypes \<Rightarrow> matcher skiptypes" where
  "plugin_setup mk NotSpecified = NotSpecified"
| "plugin_setup mk (DictCfg d) = DictCfg (map (\<lambda>(kls, ts). (kls, map mk ts)) d)"
| "plugin_setup mk (ListCfg ts) = ListCfg (map mk ts)"
| "plugin_setup mk (TupleCfg ts) = ListCfg (map mk ts)"
| "plugin_setup mk NoneCfg = NoneCfg"
| "plugin_setup mk OtherCfg = OtherCfg"

subsection \<open>\<^verbatim>\<open>XDressPlugin._modify_class_desc\<close>\<close>

text \<open>
  \<^verbatim>\<open>del d[k]\<close>: the entry of key \<open>k\<close> is removed; \<open>KeyError\<close> when there is none.
\<close>

definition dict_del :: "'k \<Rightarrow> ('k \<times> 'v) list \<Rightarrow> exn + ('k \<times> 'v) list" where
  "dict_del k d =
     (if k \<in> fst ` set d then Inr (filter (\<lambda>kv. fst kv \<noteq> k) d) else Inl KeyError)"

text \<open>
  \<^verbatim>\<open>
  if name is None:
      skips = rc.skiptypes
  else:
      skips = rc.skiptypes[name]
  \<close>
  The value must be one the loops can iterate as matchers. \<^verbatim>\<open>execute\<close> passes no name
  under a list and the name of a key under a dictionary; the last equation covers the
  calls it never makes.
\<close>

fun get_skips :: "matcher skiptypes \<Rightarrow> string option \<Rightarrow> exn + matcher list" where
  "get_skips (ListCfg ms) None = Inr ms"
| "get_skips (DictCfg d) (Some n) =
     (case map_of d n of None \<Rightarrow> Inl KeyError | Some ms \<Rightarrow> Inr ms)"
| "get_skips cfg n = Inl TypeError"

text \<open>
  \<^verbatim>\<open>
  for tm in skips:
      if tm._match_anywhere(t):
          del ...
          break
  \<close>
  The inner loop, which all three places of the function share: \<open>Inr True\<close> when a
  matcher matched, so that the entry is deleted and the loop left, \<open>Inr False\<close> when the
  loop ran to its end, \<open>Inl e\<close> when a call raised \<open>e\<close>.
\<close>

fun first_match :: "matcher list \<Rightarrow> pyval \<Rightarrow> exn + bool" where
  "first_match [] t = Inr False"
| "first_match (tm # tms) t =
     (case match_anywhere tm t of
        Inl e \<Rightarrow> Inl e
      | Inr r \<Rightarrow> if truthy r then Inr True else first_match tms t)"

text \<open>
  \<^verbatim>\<open>
  for at_name, at_t in desc['attrs'].copy().items():
      for tm in skips:
          if tm._match_anywhere(at_t):
              del desc['attrs'][at_name]
              break
  \<close>
  The second argument is what is left of the copy, the third the dictionary
  \<^verbatim>\<open>desc['attrs']\<close> as it is now. The result is the dictionary at the end of the loop
  and the exception that ended it, if one did.
\<close>

fun attrs_loop ::
  "matcher list \<Rightarrow> (string \<times> pyval) list \<Rightarrow> (string \<times> pyval) list
     \<Rightarrow> (string \<times> pyval) list \<times> exn option" where
  "attrs_loop skips [] d = (d, None)"
| "attrs_loop skips ((at_name, at_t) # rest) d =
     (case first_match skips at_t of
        Inl e \<Rightarrow> (d, Some e)
      | Inr True \<Rightarrow>
          (case dict_del at_name d of
             Inl e \<Rightarrow> (d, Some e)
           | Inr d' \<Rightarrow> attrs_loop skips rest d')
      | Inr False \<Rightarrow> attrs_loop skips rest d)"

text \<open>
  \<^verbatim>\<open>
  for arg in m_args:
      t = arg[1]  # Just use type, not parameter name or default val
      for tm in skips:
          if tm._match_anywhere(t):
              del desc['methods'][m_key]
              _deleted = True
              break
      if _deleted:
          break
  \<close>
  The result is the flag \<open>_deleted\<close> at the end of the loop.
\<close>

fun args_loop :: "matcher list \<Rightarrow> param list \<Rightarrow> exn + bool" where
  "args_loop skips [] = Inr False"
| "args_loop skips (arg # rest) =
     (case first_match skips (ptype arg) of
        Inl e \<Rightarrow> Inl e
      | Inr True \<Rightarrow> Inr True
      | Inr False \<Rightarrow> args_loop skips rest)"

text \<open>
  The body of the loop over the methods, for one method: the return type first, and
  the arguments \<^verbatim>\<open>m_key[1:]\<close> only when that did not delete the method. The result is
  the flag \<open>_deleted\<close>; the deletion itself is done by \<open>methods_loop\<close>.
\<close>

fun method_check :: "matcher list \<Rightarrow> method_key \<times> pyval \<Rightarrow> exn + bool" where
  "method_check skips (m_key, m_ret) =
     (case first_match skips m_ret of
        Inl e \<Rightarrow> Inl e
      | Inr True \<Rightarrow> Inr True
      | Inr False \<Rightarrow> args_loop skips (snd m_key))"

text \<open>
  \<^verbatim>\<open>for m_key, m_ret in desc['methods'].copy().items(): ...\<close>, with the copy and the
  dictionary as in \<open>attrs_loop\<close>.
\<close>

fun methods_loop ::
  "matcher list \<Rightarrow> (method_key \<times> pyval) list \<Rightarrow> (method_key \<times> pyval) list
     \<Rightarrow> (method_key \<times> pyval) list \<times> exn option" where
  "methods_loop skips [] d = (d, None)"
| "methods_loop skips ((m_key, m_ret) # rest) d =
     (case method_check skips (m_key, m_ret) of
        Inl e \<Rightarrow> (d, Some e)
      | Inr True \<Rightarrow>
          (case dict_del m_key d of
             Inl e \<Rightarrow> (d, Some e)
           | Inr d' \<Rightarrow> methods_loop skips rest d')
      | Inr False \<Rightarrow> methods_loop skips rest d)"

text \<open>
  \<^verbatim>\<open>_modify_class_desc(self, rc, desc, name=None)\<close>. The description is changed in
  place, so the result is the description as the call leaves it, also when an exception
  ends the call, together with that exception.
\<close>

definition modify_class_desc ::
  "matcher skiptypes \<Rightarrow> class_desc \<Rightarrow> string option \<Rightarrow> class_desc \<times> exn option" where
  "modify_class_desc cfg c nm =
     (case get_skips cfg nm of
        Inl e \<Rightarrow> (c, Some e)
      | Inr skips \<Rightarrow>
          (case attrs_loop skips (attrs c) (attrs c) of
             (a', Some e) \<Rightarrow> (c\<lparr>attrs := a'\<rparr>, Some e)
           | (a', None) \<Rightarrow>
               (case methods_loop skips (methods c) (methods c) of
                  (m', e) \<Rightarrow> (c\<lparr>attrs := a', methods := m'\<rparr>, e))))"

subsection \<open>\<^verbatim>\<open>XDressPlugin.execute\<close>\<close>

text \<open>
  \<^verbatim>\<open>for k, v in d.items(): body(v)\<close>, where the body changes the value in place (or
  stores the changed value under the same key) and may raise: the values are visited in
  order, and an exception ends the loop with the values after it unvisited. Every key
  holds an object of its own.
\<close>

fun for_items ::
  "('v \<Rightarrow> 'v \<times> exn option) \<Rightarrow> ('k \<times> 'v) list \<Rightarrow> ('k \<times> 'v) list \<times> exn option" where
  "for_items body [] = ([], None)"
| "for_items body ((k, v) # rest) =
     (case body v of
        (v', Some e) \<Rightarrow> ((k, v') # rest, Some e)
      | (v', None) \<Rightarrow> (case for_items body rest of (rest', e) \<Rightarrow> ((k, v') # rest', e)))"

text \<open>
  \<^verbatim>\<open>
  if isclassdesc(desc):
      if desc['name'] in skip_classes:
          rc.env[mod_key][kls_key] = self._modify_class_desc(rc, desc, name=desc['name'])
  \<close>
\<close>

fun dict_body :: "matcher skiptypes \<Rightarrow> string list \<Rightarrow> desc \<Rightarrow> desc \<times> exn option" where
  "dict_body cfg skip_classes (ClassDesc c) =
     (if name c \<in> set skip_classes then
        (case modify_class_desc cfg c (Some (name c)) of (c', e) \<Rightarrow> (ClassDesc c', e))
      else (ClassDesc c, None))"
| "dict_body cfg skip_classes (OtherDesc d) = (OtherDesc d, None)"

text \<open>
  \<^verbatim>\<open>
  if isclassdesc(desc):
      self._modify_class_desc(rc, desc)
  \<close>
\<close>

fun list_body :: "matcher skiptypes \<Rightarrow> desc \<Rightarrow> desc \<times> exn option" where
  "list_body cfg (ClassDesc c) =
     (case modify_class_desc cfg c None of (c', e) \<Rightarrow> (ClassDesc c', e))"
| "list_body cfg (OtherDesc d) = (OtherDesc d, None)"

text \<open>
  \<^verbatim>\<open>
  def execute(self, rc):
      print("typefilter: removing unwanted types from desc dictionary")
      if not isinstance(rc.skiptypes, NotSpecified):
          if isinstance(rc.skiptypes, dict):
              skip_classes = rc.skiptypes.keys()
              for mod_key, mod in rc.env.items():
                  for kls_key, desc in mod.items():
                      ...
          elif isinstance(rc.skiptypes, list):
              for mod in rc.env.values():
                  for desc in mod.values():
                      ...
  \<close>
  The result is \<^verbatim>\<open>rc.env\<close> as the call leaves it and the exception that ended the
  call, if one did. The printed line is left out.
\<close>

fun execute :: "matcher skiptypes \<Rightarrow> env \<Rightarrow> env \<times> exn option" where
  "execute NotSpecified env = (env, None)"
| "execute (DictCfg d) env =
     for_items (for_items (dict_body (DictCfg d) (map fst d))) env"
| "execute (ListCfg ms) env = for_items (for_items (list_body (ListCfg ms))) env"
| "execute cfg env = (env, None)"

section \<open>Notions used to state the properties\<close>

subsection \<open>The passes as the spec describes them\<close>

text \<open>
  One pass over the entries of a dictionary, in order, as the spec describes the
  attribute pass and the method pass: an entry whose check holds is dropped and any
  other entry is kept; an entry whose check raises ends the pass, and it stays with
  every entry after it. Every entry is looked at once. The loops of the code delete
  from the dictionary while they walk a copy of it; they are compared with this pass.
\<close>

fun prune ::
  "('k \<times> 'v \<Rightarrow> exn + bool) \<Rightarrow> ('k \<times> 'v) list \<Rightarrow> ('k \<times> 'v) list \<times> exn option" where
  "prune chk [] = ([], None)"
| "prune chk (kv # rest) =
     (case chk kv of
        Inl e \<Rightarrow> (kv # rest, Some e)
      | Inr True \<Rightarrow> prune chk rest
      | Inr False \<Rightarrow> (case prune chk rest of (rest', e) \<Rightarrow> (kv # rest', e)))"

text \<open>
  The checks the spec lists for one method, in its order: the return type against every
  matcher, then the type of each parameter, in parameter order, against every matcher.
  Each element is the outcome of one call of \<^verbatim>\<open>_match_anywhere\<close>. \<open>first_hit\<close> reads such a
  list from the left and stops at the first outcome that is a match or an exception.
\<close>

definition probes :: "matcher list \<Rightarrow> method_key \<times> pyval \<Rightarrow> (exn + bool option) list" where
  "probes skips m =
     map (\<lambda>tm. match_anywhere tm (snd m)) skips
     @ concat (map (\<lambda>arg. map (\<lambda>tm. match_anywhere tm (ptype arg)) skips) (snd (fst m)))"

fun first_hit :: "(exn + bool option) list \<Rightarrow> exn + bool" where
  "first_hit [] = Inr False"
| "first_hit (Inl e # rest) = Inl e"
| "first_hit (Inr r # rest) = (if truthy r then Inr True else first_hit rest)"

subsection \<open>Well-formed models and the shape of a model\<close>

text \<open>
  The keys of a Python dictionary are distinct. \<open>wf_env\<close> says so for the attributes and
  for the methods of every class description of the model.
\<close>

definition wf_class :: "class_desc \<Rightarrow> bool" where
  "wf_class c = (distinct (map fst (attrs c)) \<and> distinct (map fst (methods c)))"

fun wf_desc :: "desc \<Rightarrow> bool" where
  "wf_desc (ClassDesc c) = wf_class c"
| "wf_desc (OtherDesc d) = True"

definition wf_env :: "env \<Rightarrow> bool" where
  "wf_env env = list_all (\<lambda>m. list_all (\<lambda>d. wf_desc (snd d)) (snd m)) env"

text \<open>
  \<open>env_rel R env' env\<close>: the two models have the same module keys in the same order,
  each module has the same entity keys in the same order, and the descriptors under
  each key are related by \<open>R\<close>.
\<close>

definition env_rel :: "(desc \<Rightarrow> desc \<Rightarrow> bool) \<Rightarrow> env \<Rightarrow> env \<Rightarrow> bool" where
  "env_rel R env' env =
     list_all2 (\<lambda>m' m. fst m' = fst m
        \<and> list_all2 (\<lambda>d' d. fst d' = fst d \<and> R (snd d') (snd d)) (snd m') (snd m)) env' env"

text \<open>
  \<open>pruned_desc d' d\<close>: \<open>d'\<close> is \<open>d\<close> with some attributes and methods removed and
  nothing else changed: the entries left are entries of \<open>d\<close>, with their types, in
  their order.
\<close>

fun pruned_desc :: "desc \<Rightarrow> desc \<Rightarrow> bool" where
  "pruned_desc (ClassDesc c') (ClassDesc c) =
     (name c' = name c \<and> subseq (attrs c') (attrs c) \<and> subseq (methods c') (methods c))"
| "pruned_desc (OtherDesc d') (OtherDesc d) = (d' = d)"
| "pruned_desc d' d = False"

text \<open>The class descriptions a dictionary configuration names, and the class names of a model.\<close>

fun targeted :: "string list \<Rightarrow> desc \<Rightarrow> bool" where
  "targeted keys (ClassDesc c) = (name c \<in> set keys)"
| "targeted keys (OtherDesc d) = False"

fun desc_names :: "desc \<Rightarrow> string list" where
  "desc_names (ClassDesc c) = [name c]"
| "desc_names (OtherDesc d) = []"

definition class_names :: "env \<Rightarrow> string list" where
  "class_names env = concat (map (\<lambda>m. concat (map (\<lambda>d. desc_names (snd d)) (snd m))) env)"

subsection \<open>Matchers whose failures stay inside \<^verbatim>\<open>_match_anywhere\<close>\<close>

text \<open>
  \<open>absorbed m t\<close>: on the candidate \<open>t\<close>, the matcher raises nothing but \<open>TypeError\<close>
  on the whole candidate, and when it returns false on a tuple or list it raises on
  none of the flattened elements.
\<close>

definition absorbed :: "matcher \<Rightarrow> pyval \<Rightarrow> bool" where
  "absorbed m t =
     (case m t of
        Inl e \<Rightarrow> e = TypeError
      | Inr True \<Rightarrow> True
      | Inr False \<Rightarrow> \<not> is_seq t \<or> (\<forall>x\<in>set (items_of (flatten t)). \<exists>b. m x = Inr b))"

fun matchers_of :: "matcher skiptypes \<Rightarrow> matcher list" where
  "matchers_of (DictCfg d) = concat (map snd d)"
| "matchers_of (ListCfg ms) = ms"
| "matchers_of (TupleCfg ms) = ms"
| "matchers_of cfg = []"

subsection \<open>Example matchers and an example model\<close>

text \<open>
  Modelled from the spec: the Exact Matcher built from a pattern (\<open>TypeMatcher\<close> of
  \<^verbatim>\<open>xdress.typesystem\<close>, which is not among the sources), in its plainest form. The
  spec says it tests "whether a concrete type expression equals the pattern" and
  leaves richer rules open: here the candidate matches when it equals the pattern, and
  the call never raises. The theorems take an arbitrary matcher wherever they can and
  use this one as an instance.
\<close>

definition exact_matcher :: "pyval \<Rightarrow> matcher" where
  "exact_matcher p t = Inr (t = p)"

text \<open>
  Matchers that raise, for the examples: on every tuple or list, on every candidate, on
  every candidate that is not a tuple or list, and (an exception that is not a
  \<open>TypeError\<close>) on every candidate.
\<close>

definition composite_raising_matcher :: matcher where
  "composite_raising_matcher t =
     (if is_seq t then Inl TypeError else Inr (t = Str ''float64''))"

definition raising_matcher :: matcher where
  "raising_matcher t = Inl TypeError"

definition leaf_raising_matcher :: matcher where
  "leaf_raising_matcher t = (if is_seq t then Inr False else Inl TypeError)"

definition other_raising_matcher :: matcher where
  "other_raising_matcher t = Inl OtherError"

text \<open>
  A matcher of \<open>float64\<close> that returns false on tuples, lists and the strings
  \<open>vector\<close>, \<open>const\<close> and \<open>&\<close>, and raises on every other candidate.
\<close>

definition picky_matcher :: matcher where
  "picky_matcher t =
     (if t = Str ''float64'' then Inr True
      else if is_seq t \<or> t \<in> {Str ''vector'', Str ''const'', Str ''&''} then Inr False
      else Inl TypeError)"

text \<open>
  The class \<open>Blah\<close> has an attribute of type \<open>float64\<close>, a method \<open>f\<close> that returns a
  reference to a constant vector of \<open>float64\<close>, and a method \<open>g\<close> with no return type;
  the module also holds a description that is not a class. The class \<open>Vec\<close> has an
  attribute whose type is a tuple.
\<close>

definition example_class :: class_desc where
  "example_class =
     \<lparr>name = ''Blah'',
      attrs = [(''x'', Str ''float64''), (''n'', Str ''int32'')],
      methods =
        [((''f'', [\<lparr>pname = ''n'', ptype = Str ''int32'', pdefault = None\<rparr>]),
            Tup [Tup [Str ''vector'', Str ''float64'', Str ''const''], Str ''&'']),
         ((''g'', [\<lparr>pname = ''a'', ptype = Str ''int32'', pdefault = None\<rparr>,
                  \<lparr>pname = ''b'', ptype = Str ''classA'', pdefault = Some (IntVal 0)\<rparr>]),
            NoneVal)]\<rparr>"

definition example_env :: env where
  "example_env = [(''mod'', [(''Blah'', ClassDesc example_class), (''foo'', OtherDesc [])])]"

definition vector_class :: class_desc where
  "vector_class =
     \<lparr>name = ''Vec'',
      attrs = [(''v'', Tup [Str ''vector'', Str ''int32'']), (''x'', Str ''float64'')],
      methods = []\<rparr>"

section \<open>Properties of \<^verbatim>\<open>_flatten\<close>\<close>

lemma flatten_seq_is_list: "is_seq t \<Longrightarrow> flatten t = Lst (flatten_for (items_of t))"
  by (cases t) simp_all

lemma inside_is_seq: "inside a t \<Longrightarrow> is_seq t"
  by (cases t) simp_all

lemma flatten_for_nonempty:
  "inside a t \<longrightarrow> \<not> is_seq a \<longrightarrow> flatten_for (items_of t) \<noteq> []"
  "inside_list a els \<longrightarrow> \<not> is_seq a \<longrightarrow> flatten_for els \<noteq> []"
  by (induction a t and a els rule: inside_inside_list.induct)
     (auto simp: flatten_seq_is_list)

lemma flatten_for_atoms:
  "is_seq t \<longrightarrow> (x \<in> set (flatten_for (items_of t))) = (inside x t \<and> \<not> is_seq x)"
  "(x \<in> set (flatten_for els)) = (inside_list x els \<and> \<not> is_seq x)"
  by (induction t and els rule: flatten_flatten_for.induct)
     (auto simp: flatten_seq_is_list dest: inside_is_seq)

lemma chars_single: "(chars_of s = [Str s]) = (length s = 1)"
  by (cases s) (auto simp: length_Suc_conv)

text \<open>
  C2, as the spec states it, fails: a string handed to \<open>flatten\<close> is iterated, so
  \<^verbatim>\<open>_flatten('float64')\<close> is the list of its seven characters and not
  \<^verbatim>\<open>['float64']\<close>, and the empty tuple and the empty string flatten to the empty list.
\<close>

theorem flatten_leaf_singleton_counterexample:
  "flatten (Str ''float64'') \<noteq> Lst [Str ''float64'']
   \<and> flatten (Tup []) = Lst []
   \<and> flatten (Str []) = Lst []"
  by simp

text \<open>
  C2, amended: \<open>flatten\<close> of a string is the list of its characters, which is the
  singleton of the string exactly when the string has one character, and is not empty
  when the string is not; \<open>flatten\<close> of a tuple or list that holds, at some depth, an
  element that is not itself a tuple or list is a list that is not empty; and a string
  that is the one element of a tuple or list is kept whole.
\<close>

theorem flatten_shape:
  "flatten (Str s) = Lst (chars_of s)
   \<and> (flatten (Str s) = Lst [Str s]) = (length s = 1)
   \<and> (s \<noteq> [] \<longrightarrow> flatten (Str s) \<noteq> Lst [])
   \<and> (is_seq t \<and> inside a t \<and> \<not> is_seq a \<longrightarrow> (\<exists>x xs. flatten t = Lst (x # xs)))
   \<and> flatten (Tup [Str s]) = Lst [Str s] \<and> flatten (Lst [Str s]) = Lst [Str s]"
  using flatten_for_nonempty(1)[of a t] chars_single[of s]
  by (auto simp: flatten_seq_is_list neq_Nil_conv)

theorem flatten_shape_witness:
  "flatten (Str ''float64'') =
     Lst [Str ''f'', Str ''l'', Str ''o'', Str ''a'', Str ''t'', Str ''6'', Str ''4'']
   \<and> is_seq (Tup [Tup [Str ''vector'', Str ''float64''], Str ''&''])
   \<and> inside (Str ''float64'') (Tup [Tup [Str ''vector'', Str ''float64''], Str ''&''])
   \<and> \<not> is_seq (Str ''float64'')
   \<and> (\<exists>x xs. flatten (Tup [Tup [Str ''vector'', Str ''float64''], Str ''&'']) = Lst (x # xs))"
  using flatten_shape [of "''float64''" "Tup [Tup [Str ''vector'', Str ''float64''], Str ''&'']"
      "Str ''float64''"]
  by simp

section \<open>Properties of \<^verbatim>\<open>_match_anywhere\<close>\<close>

lemma ex_not_bool [simp]: "\<exists>b. \<not> b"
  by blast

lemma matches_all_cong:
  "(\<And>x. x \<in> set xs \<Longrightarrow> m x = m' x) \<Longrightarrow> matches_all m xs = matches_all m' xs"
  by (induction xs) (auto split: sum.splits)

lemma matches_all_total:
  "(\<And>x. x \<in> set xs \<Longrightarrow> \<exists>b. m x = Inr b) \<Longrightarrow>
   \<exists>bs. matches_all m xs = Inr bs \<and> list_ex (\<lambda>b. b) bs = (\<exists>x\<in>set xs. m x = Inr True)"
proof (induction xs)
  case Nil
  then show ?case by simp
next
  case (Cons x xs)
  from Cons.prems obtain b where b: "m x = Inr b" by auto
  from Cons obtain bs where bs: "matches_all m xs = Inr bs"
    "list_ex (\<lambda>b. b) bs = (\<exists>x\<in>set xs. m x = Inr True)" by auto
  show ?case using b bs by auto
qed

lemma matches_all_Inr_iff:
  "(\<exists>bs. matches_all m xs = Inr bs) = (\<forall>x\<in>set xs. \<exists>b. m x = Inr b)"
  by (induction xs) (auto split: sum.splits)

lemma else_clause_seq:
  "is_seq c \<Longrightarrow> else_clause m c =
     (case matches_all m (flatten_for (items_of c)) of
        Inl e \<Rightarrow> Inl e | Inr bs \<Rightarrow> Inr (Some (list_ex (\<lambda>b. b) bs)))"
  by (cases c) (simp_all add: else_clause_def)

text \<open>
  C10: for a tuple or list \<open>c\<close>, every string nested in \<open>c\<close> at any depth is an element
  of \<open>flatten c\<close>, whole; the elements of \<open>flatten c\<close> are exactly the values nested in
  \<open>c\<close> that are not tuples or lists, so none of them is a piece of a nested string; and
  the fallback of \<^verbatim>\<open>_match_anywhere\<close> for \<open>c\<close> depends on the matcher only through what it
  does on these elements.
\<close>

theorem flatten_keeps_identifiers_whole:
  "is_seq c \<Longrightarrow>
     (inside (Str s) c \<longrightarrow> Str s \<in> set (items_of (flatten c)))
   \<and> set (items_of (flatten c)) = {x. inside x c \<and> \<not> is_seq x}
   \<and> ((\<forall>x. inside x c \<and> \<not> is_seq x \<longrightarrow> m x = m' x) \<longrightarrow> else_clause m c = else_clause m' c)"
proof -
  assume c: "is_seq c"
  have items: "items_of (flatten c) = flatten_for (items_of c)"
    using c by (simp add: flatten_seq_is_list)
  have eq: "set (flatten_for (items_of c)) = {x. inside x c \<and> \<not> is_seq x}"
    using flatten_for_atoms(1)[of c] c by auto
  have "else_clause m c = else_clause m' c" if "\<forall>x. inside x c \<and> \<not> is_seq x \<longrightarrow> m x = m' x"
  proof -
    have "matches_all m (flatten_for (items_of c)) = matches_all m' (flatten_for (items_of c))"
      using that eq by (intro matches_all_cong) auto
    then show ?thesis using c by (simp add: else_clause_seq)
  qed
  then show ?thesis using items eq by auto
qed

theorem flatten_keeps_identifiers_whole_witness:
  "is_seq (Tup [Tup [Str ''vector'', Str ''float64'', Str ''const''], Str ''&''])
   \<and> inside (Str ''float64'') (Tup [Tup [Str ''vector'', Str ''float64'', Str ''const''], Str ''&''])
   \<and> Str ''float64''
       \<in> set (items_of (flatten (Tup [Tup [Str ''vector'', Str ''float64'', Str ''const''], Str ''&''])))
   \<and> flatten (Tup [Tup [Str ''vector'', Str ''float64'', Str ''const''], Str ''&''])
       = Lst [Str ''vector'', Str ''float64'', Str ''const'', Str ''&'']
   \<and> else_clause (exact_matcher (Str ''float64''))
         (Tup [Tup [Str ''vector'', Str ''float64'', Str ''const''], Str ''&''])
       = else_clause composite_raising_matcher
         (Tup [Tup [Str ''vector'', Str ''float64'', Str ''const''], Str ''&''])"
proof -
  let ?c = "Tup [Tup [Str ''vector'', Str ''float64'', Str ''const''], Str ''&'']"
  have h1: "is_seq ?c" and h2: "inside (Str ''float64'') ?c" by simp_all
  have h3: "\<forall>x. inside x ?c \<and> \<not> is_seq x \<longrightarrow>
      exact_matcher (Str ''float64'') x = composite_raising_matcher x"
    by (simp add: exact_matcher_def composite_raising_matcher_def)
  note T = flatten_keeps_identifiers_whole
    [OF h1, of "''float64''" "exact_matcher (Str ''float64'')" composite_raising_matcher]
  from T h2 have a: "Str ''float64'' \<in> set (items_of (flatten ?c))" by blast
  from T h3 have b: "else_clause (exact_matcher (Str ''float64'')) ?c
      = else_clause composite_raising_matcher ?c" by blast
  from h1 h2 a b show ?thesis by simp
qed

text \<open>
  C1, as the spec states it, fails. On a tuple whose whole-candidate call raises
  \<open>TypeError\<close> the function returns \<^verbatim>\<open>None\<close>, although the flatten fallback would have
  returned true; on a string whose whole-candidate call raises \<open>TypeError\<close> it returns
  \<^verbatim>\<open>None\<close> without calling the matcher a second time (the second call would raise).
\<close>

theorem match_anywhere_continues_counterexample:
  "composite_raising_matcher (Tup [Str ''float64'']) = Inl TypeError
   \<and> else_clause composite_raising_matcher (Tup [Str ''float64'']) = Inr (Some True)
   \<and> match_anywhere composite_raising_matcher (Tup [Str ''float64'']) = Inr None
   \<and> raising_matcher (Str ''float64'') = Inl TypeError
   \<and> else_clause raising_matcher (Str ''float64'') = Inl TypeError
   \<and> match_anywhere raising_matcher (Str ''float64'') = Inr None"
  by (simp add: match_anywhere_def else_clause_def composite_raising_matcher_def
      raising_matcher_def)

text \<open>
  C1, amended: when the whole-candidate call raises \<open>TypeError\<close>, the failure is caught
  and the function returns \<^verbatim>\<open>None\<close> at once, which its caller reads as "not matched";
  the later steps are not evaluated. They decide the result when the whole-candidate
  call returned false without raising: for a string the second call gives that same
  false, and for a tuple or list the result is whether the matcher matches one of the
  flattened elements (or the exception the first raising call on one of them raises).
\<close>

theorem match_anywhere_caught_failure:
  "(m t = Inl TypeError \<longrightarrow> match_anywhere m t = Inr None \<and> first_match [m] t = Inr False)
   \<and> (m t = Inr False \<and> is_str t \<longrightarrow> match_anywhere m t = Inr (Some False))
   \<and> (m t = Inr False \<and> is_seq t \<longrightarrow>
        match_anywhere m t =
          (case matches_all m (items_of (flatten t)) of
             Inl e \<Rightarrow> Inl e
           | Inr bs \<Rightarrow> Inr (Some (list_ex (\<lambda>b. b) bs))))"
proof (intro conjI impI)
  assume "m t = Inl TypeError"
  then show "match_anywhere m t = Inr None" and "first_match [m] t = Inr False"
    by (simp_all add: match_anywhere_def)
next
  assume "m t = Inr False \<and> is_str t"
  then show "match_anywhere m t = Inr (Some False)"
    by (simp add: match_anywhere_def else_clause_def)
next
  assume a: "m t = Inr False \<and> is_seq t"
  then have "\<not> is_str t" by (cases t) simp_all
  with a show "match_anywhere m t =
      (case matches_all m (items_of (flatten t)) of
         Inl e \<Rightarrow> Inl e
       | Inr bs \<Rightarrow> Inr (Some (list_ex (\<lambda>b. b) bs)))"
    by (simp add: match_anywhere_def else_clause_def)
qed

theorem match_anywhere_caught_failure_witness:
  "raising_matcher (Tup [Str ''int32'']) = Inl TypeError
   \<and> match_anywhere raising_matcher (Tup [Str ''int32'']) = Inr None
   \<and> first_match [raising_matcher] (Tup [Str ''int32'']) = Inr False
   \<and> exact_matcher (Str ''float64'') (Str ''int32'') = Inr False
   \<and> match_anywhere (exact_matcher (Str ''float64'')) (Str ''int32'') = Inr (Some False)
   \<and> exact_matcher (Str ''float64'') (Tup [Str ''vector'', Str ''float64'']) = Inr False
   \<and> match_anywhere (exact_matcher (Str ''float64'')) (Tup [Str ''vector'', Str ''float64''])
       = Inr (Some True)"
proof -
  have h1: "raising_matcher (Tup [Str ''int32'']) = Inl TypeError"
    by (simp add: raising_matcher_def)
  have h2: "exact_matcher (Str ''float64'') (Str ''int32'') = Inr False \<and> is_str (Str ''int32'')"
    by (simp add: exact_matcher_def)
  have h3: "exact_matcher (Str ''float64'') (Tup [Str ''vector'', Str ''float64'']) = Inr False
      \<and> is_seq (Tup [Str ''vector'', Str ''float64''])"
    by (simp add: exact_matcher_def)
  from match_anywhere_caught_failure [of raising_matcher "Tup [Str ''int32'']"] h1
  have a: "match_anywhere raising_matcher (Tup [Str ''int32'']) = Inr None
      \<and> first_match [raising_matcher] (Tup [Str ''int32'']) = Inr False" by blast
  from match_anywhere_caught_failure [of "exact_matcher (Str ''float64'')" "Str ''int32''"] h2
  have b: "match_anywhere (exact_matcher (Str ''float64'')) (Str ''int32'') = Inr (Some False)"
    by blast
  from match_anywhere_caught_failure
    [of "exact_matcher (Str ''float64'')" "Tup [Str ''vector'', Str ''float64'']"] h3
  have "match_anywhere (exact_matcher (Str ''float64'')) (Tup [Str ''vector'', Str ''float64''])
      = (case matches_all (exact_matcher (Str ''float64''))
               (items_of (flatten (Tup [Str ''vector'', Str ''float64'']))) of
           Inl e \<Rightarrow> Inl e
         | Inr bs \<Rightarrow> Inr (Some (list_ex (\<lambda>b. b) bs)))" by blast
  then have c: "match_anywhere (exact_matcher (Str ''float64''))
      (Tup [Str ''vector'', Str ''float64'']) = Inr (Some True)"
    by (simp add: exact_matcher_def)
  from h1 h2 h3 a b c show ?thesis by simp
qed

lemma leaf_matches_anywhere:
  assumes "is_seq c" and "inside (Str L) c" and "m (Str L) = Inr True"
    and "\<exists>b. m c = Inr b"
    and "\<forall>x. inside x c \<and> \<not> is_seq x \<longrightarrow> (\<exists>b. m x = Inr b)"
  shows "match_anywhere m c = Inr (Some True)"
proof -
  from assms(4) obtain b where b: "m c = Inr b" ..
  show ?thesis
  proof (cases b)
    case True
    with b show ?thesis by (simp add: match_anywhere_def)
  next
    case False
    have mem: "Str L \<in> set (flatten_for (items_of c))"
      using flatten_for_atoms(1)[of c "Str L"] assms(1,2) by simp
    have "\<And>x. x \<in> set (flatten_for (items_of c)) \<Longrightarrow> \<exists>b. m x = Inr b"
      using flatten_for_atoms(1)[of c] assms(1,5) by auto
    with matches_all_total[of "flatten_for (items_of c)" m] obtain bs where
      bs: "matches_all m (flatten_for (items_of c)) = Inr bs"
      "list_ex (\<lambda>b. b) bs = (\<exists>x\<in>set (flatten_for (items_of c)). m x = Inr True)"
      by blast
    from bs(2) mem assms(3) have "list_ex (\<lambda>b. b) bs" by auto
    with bs(1) b False assms(1) show ?thesis
      by (simp add: match_anywhere_def else_clause_seq)
  qed
qed

text \<open>
  C5: let \<open>c\<close> be a tuple or list that holds the identifier \<open>L\<close> at some depth. For the
  matcher of the pattern \<open>L\<close>, \<^verbatim>\<open>_match_anywhere\<close> returns true on \<open>c\<close>. The same holds
  for every matcher that matches \<open>L\<close> and raises neither on \<open>c\<close> nor on the elements
  nested in \<open>c\<close>.
\<close>

theorem leaf_pattern_matches_anywhere:
  assumes "is_seq c" and "inside (Str L) c"
  shows "match_anywhere (exact_matcher (Str L)) c = Inr (Some True)
    \<and> (m (Str L) = Inr True \<and> (\<exists>b. m c = Inr b)
         \<and> (\<forall>x. inside x c \<and> \<not> is_seq x \<longrightarrow> (\<exists>b. m x = Inr b))
       \<longrightarrow> match_anywhere m c = Inr (Some True))"
proof (intro conjI impI)
  have "exact_matcher (Str L) (Str L) = Inr True"
    and "\<exists>b. exact_matcher (Str L) c = Inr b"
    and "\<forall>x. inside x c \<and> \<not> is_seq x \<longrightarrow> (\<exists>b. exact_matcher (Str L) x = Inr b)"
    by (simp_all add: exact_matcher_def)
  with assms show "match_anywhere (exact_matcher (Str L)) c = Inr (Some True)"
    by (rule leaf_matches_anywhere)
next
  assume "m (Str L) = Inr True \<and> (\<exists>b. m c = Inr b)
    \<and> (\<forall>x. inside x c \<and> \<not> is_seq x \<longrightarrow> (\<exists>b. m x = Inr b))"
  with assms show "match_anywhere m c = Inr (Some True)"
    using leaf_matches_anywhere[of c L m] by blast
qed

text \<open>
  The witness: the pattern \<open>float64\<close> on a reference to a constant vector of
  \<open>float64\<close>, and a matcher of \<open>float64\<close> that raises on strings other than
  \<open>float64\<close>, \<open>vector\<close>, \<open>const\<close> and \<open>&\<close>.
\<close>

theorem leaf_pattern_matches_anywhere_witness:
  "is_seq (Tup [Tup [Str ''vector'', Str ''float64'', Str ''const''], Str ''&''])
   \<and> inside (Str ''float64'') (Tup [Tup [Str ''vector'', Str ''float64'', Str ''const''], Str ''&''])
   \<and> match_anywhere (exact_matcher (Str ''float64''))
        (Tup [Tup [Str ''vector'', Str ''float64'', Str ''const''], Str ''&'']) = Inr (Some True)
   \<and> picky_matcher (Str ''float64'') = Inr True
   \<and> picky_matcher (Str ''int32'') = Inl TypeError
   \<and> match_anywhere picky_matcher
        (Tup [Tup [Str ''vector'', Str ''float64'', Str ''const''], Str ''&'']) = Inr (Some True)"
proof -
  let ?c = "Tup [Tup [Str ''vector'', Str ''float64'', Str ''const''], Str ''&'']"
  have h1: "is_seq ?c" and h2: "inside (Str ''float64'') ?c" by simp_all
  have h3: "picky_matcher (Str ''float64'') = Inr True" by (simp add: picky_matcher_def)
  have h4: "\<exists>b. picky_matcher ?c = Inr b" by (simp add: picky_matcher_def)
  have h5: "\<forall>x. inside x ?c \<and> \<not> is_seq x \<longrightarrow> (\<exists>b. picky_matcher x = Inr b)"
    by (auto simp: picky_matcher_def)
  have h6: "picky_matcher (Str ''int32'') = Inl TypeError" by (simp add: picky_matcher_def)
  note T = leaf_pattern_matches_anywhere [OF h1 h2, of picky_matcher]
  from T have a: "match_anywhere (exact_matcher (Str ''float64'')) ?c = Inr (Some True)"
    by blast
  from T h3 h4 h5 have b: "match_anywhere picky_matcher ?c = Inr (Some True)" by blast
  from h1 h2 h3 h6 a b show ?thesis by (intro conjI)
qed

section \<open>Properties of the loops of \<^verbatim>\<open>_modify_class_desc\<close>\<close>

subsection \<open>Deleting from a dictionary while walking its copy\<close>

lemma filter_other_keys:
  "k \<notin> fst ` set d \<Longrightarrow> filter (\<lambda>kv. fst kv \<noteq> k) d = d"
  by (induction d) auto

lemma dict_del_mid:
  "distinct (map fst (pre @ (k, v) # rest)) \<Longrightarrow> dict_del k (pre @ (k, v) # rest) = Inr (pre @ rest)"
  by (auto simp: dict_del_def filter_other_keys)

lemma dict_del_subseq: "dict_del k d = Inr d' \<Longrightarrow> subseq d' d"
  by (auto simp: dict_del_def split: if_splits)

lemma prune_subseq: "subseq (fst (prune chk d)) d"
  by (induction d) (auto split: sum.splits bool.splits prod.splits)

lemma prune_idem: "prune chk (fst (prune chk d)) = prune chk d"
  by (induction d) (auto split: sum.splits bool.splits prod.splits)

lemma prune_no_exn:
  "\<forall>kv\<in>set d. \<exists>b. chk kv = Inr b \<Longrightarrow>
   prune chk d = (filter (\<lambda>kv. chk kv = Inr False) d, None)"
proof (induction d)
  case Nil
  then show ?case by simp
next
  case (Cons kv d)
  then obtain b where "chk kv = Inr b" by auto
  with Cons show ?case by (cases b) simp_all
qed

lemma prune_cong:
  "(\<And>kv. kv \<in> set d \<Longrightarrow> chk kv = chk' kv) \<Longrightarrow> prune chk d = prune chk' d"
  by (induction d) (auto split: sum.splits bool.splits prod.splits)

lemma attrs_loop_prune_gen:
  "distinct (map fst (pre @ snap)) \<Longrightarrow>
   attrs_loop skips snap (pre @ snap) =
     (pre @ fst (prune (\<lambda>kv. first_match skips (snd kv)) snap),
      snd (prune (\<lambda>kv. first_match skips (snd kv)) snap))"
proof (induction snap arbitrary: pre)
  case Nil
  then show ?case by simp
next
  case (Cons kv snap)
  obtain k v where kv: "kv = (k, v)" by (cases kv)
  have d1: "distinct (map fst (pre @ snap))" using Cons.prems by (simp add: kv)
  have d2: "distinct (map fst ((pre @ [kv]) @ snap))" using Cons.prems by simp
  show ?case
  proof (cases "first_match skips v")
    case (Inl e)
    then show ?thesis by (simp add: kv)
  next
    case (Inr b)
    show ?thesis
    proof (cases b)
      case True
      with Inr show ?thesis
        using Cons.IH[OF d1] dict_del_mid[of pre k v snap] Cons.prems
        by (simp add: kv)
    next
      case False
      with Inr show ?thesis
        using Cons.IH[OF d2] by (simp add: kv split: prod.splits)
    qed
  qed
qed

lemma methods_loop_prune_gen:
  "distinct (map fst (pre @ snap)) \<Longrightarrow>
   methods_loop skips snap (pre @ snap) =
     (pre @ fst (prune (method_check skips) snap), snd (prune (method_check skips) snap))"
proof (induction snap arbitrary: pre)
  case Nil
  then show ?case by simp
next
  case (Cons kv snap)
  obtain k v where kv: "kv = (k, v)" by (cases kv)
  have d1: "distinct (map fst (pre @ snap))" using Cons.prems by (simp add: kv)
  have d2: "distinct (map fst ((pre @ [kv]) @ snap))" using Cons.prems by simp
  show ?case
  proof (cases "method_check skips (k, v)")
    case (Inl e)
    then show ?thesis by (simp add: kv)
  next
    case (Inr b)
    show ?thesis
    proof (cases b)
      case True
      with Inr show ?thesis
        using Cons.IH[OF d1] dict_del_mid[of pre k v snap] Cons.prems
        by (simp add: kv)
    next
      case False
      with Inr show ?thesis
        using Cons.IH[OF d2] by (simp add: kv split: prod.splits)
    qed
  qed
qed

lemma attrs_loop_prune:
  "distinct (map fst d) \<Longrightarrow> attrs_loop skips d d = prune (\<lambda>kv. first_match skips (snd kv)) d"
  using attrs_loop_prune_gen[of "[]" d skips] by simp

lemma methods_loop_prune:
  "distinct (map fst d) \<Longrightarrow> methods_loop skips d d = prune (method_check skips) d"
  using methods_loop_prune_gen[of "[]" d skips] by simp

lemma attrs_loop_subseq: "subseq d d0 \<Longrightarrow> subseq (fst (attrs_loop skips snap d)) d0"
proof (induction snap arbitrary: d)
  case Nil
  then show ?case by simp
next
  case (Cons kv snap)
  obtain k v where kv: "kv = (k, v)" by (cases kv)
  show ?case using Cons
    by (auto simp: kv split: sum.splits bool.splits dest!: dict_del_subseq intro: subseq_order.trans)
qed

lemma methods_loop_subseq: "subseq d d0 \<Longrightarrow> subseq (fst (methods_loop skips snap d)) d0"
proof (induction snap arbitrary: d)
  case Nil
  then show ?case by simp
next
  case (Cons kv snap)
  obtain k v where kv: "kv = (k, v)" by (cases kv)
  show ?case using Cons
    by (auto simp: kv split: sum.splits bool.splits dest!: dict_del_subseq intro: subseq_order.trans
        simp del: method_check.simps)
qed

subsection \<open>The order of the checks on one method\<close>

lemma first_hit_append:
  "first_hit (xs @ ys) = (case first_hit xs of Inr False \<Rightarrow> first_hit ys | r \<Rightarrow> r)"
  by (induction xs rule: first_hit.induct) (auto split: sum.splits bool.splits)

lemma first_match_first_hit:
  "first_match skips t = first_hit (map (\<lambda>tm. match_anywhere tm t) skips)"
  by (induction skips) (auto split: sum.splits)

lemma args_loop_first_hit:
  "args_loop skips args =
     first_hit (concat (map (\<lambda>arg. map (\<lambda>tm. match_anywhere tm (ptype arg)) skips) args))"
  by (induction args)
     (auto simp: first_hit_append first_match_first_hit split: sum.splits bool.splits)

lemma method_check_first_hit: "method_check skips m = first_hit (probes skips m)"
  by (cases m)
     (auto simp: probes_def first_hit_append first_match_first_hit args_loop_first_hit
       split: sum.splits bool.splits)

lemma probes_alt:
  "probes skips (k, r) =
     map (\<lambda>tm. match_anywhere tm r) skips
     @ concat (map (\<lambda>t. map (\<lambda>tm. match_anywhere tm t) skips) (map ptype (snd k)))"
  by (simp add: probes_def comp_def)

lemma probes_types:
  "map ptype (snd k) = map ptype (snd k') \<Longrightarrow> probes skips (k, r) = probes skips (k', r)"
  by (simp only: probes_alt)

subsection \<open>Matchers that do not raise\<close>

lemma match_anywhere_returns_iff:
  "(\<exists>r. match_anywhere m t = Inr r) = absorbed m t"
proof (cases "m t")
  case (Inl e)
  then show ?thesis by (cases e) (simp_all add: match_anywhere_def absorbed_def)
next
  case (Inr b)
  show ?thesis
  proof (cases b)
    case True
    with Inr show ?thesis by (simp add: match_anywhere_def absorbed_def)
  next
    case False
    show ?thesis
    proof (cases "is_seq t")
      case True
      then have ns: "\<not> is_str t" by (cases t) simp_all
      have "(\<exists>r. else_clause m t = Inr r) = (\<exists>bs. matches_all m (items_of (flatten t)) = Inr bs)"
        using True ns by (auto simp: else_clause_def split: sum.splits)
      then show ?thesis using Inr False True
        by (simp add: match_anywhere_def absorbed_def matches_all_Inr_iff)
    next
      case nseq: False
      then show ?thesis using Inr False
        by (auto simp: match_anywhere_def absorbed_def else_clause_def)
    qed
  qed
qed

lemma first_match_returns:
  "\<forall>m\<in>set skips. absorbed m t \<Longrightarrow> \<exists>b. first_match skips t = Inr b"
proof (induction skips)
  case Nil
  then show ?case by simp
next
  case (Cons m skips)
  then have "absorbed m t" by simp
  then obtain r where "match_anywhere m t = Inr r"
    using match_anywhere_returns_iff[of m t] by blast
  with Cons show ?case by auto
qed

lemma args_loop_returns:
  "\<forall>m\<in>set skips. \<forall>t. absorbed m t \<Longrightarrow> \<exists>b. args_loop skips args = Inr b"
proof (induction args)
  case Nil
  then show ?case by simp
next
  case (Cons a args)
  then obtain b where "first_match skips (ptype a) = Inr b"
    using first_match_returns[of skips "ptype a"] by blast
  with Cons show ?case by (cases b) auto
qed

lemma method_check_returns:
  "\<forall>m\<in>set skips. \<forall>t. absorbed m t \<Longrightarrow> \<exists>b. method_check skips kv = Inr b"
proof -
  assume a: "\<forall>m\<in>set skips. \<forall>t. absorbed m t"
  obtain k r where kv: "kv = (k, r)" by (cases kv)
  from a obtain b where b: "first_match skips r = Inr b"
    using first_match_returns[of skips r] by blast
  show ?thesis using b args_loop_returns[OF a, of "snd k"] by (cases b) (auto simp: kv)
qed

subsection \<open>An empty list of matchers\<close>

lemma attrs_loop_no_skips: "attrs_loop [] snap d = (d, None)"
  by (induction snap) auto

lemma args_loop_no_skips: "args_loop [] args = Inr False"
  by (induction args) auto

lemma methods_loop_no_skips: "methods_loop [] snap d = (d, None)"
  by (induction snap) (auto simp: args_loop_no_skips)

lemma modify_no_skips: "modify_class_desc (ListCfg []) c None = (c, None)"
  by (simp add: modify_class_desc_def attrs_loop_no_skips methods_loop_no_skips)

subsection \<open>One class description\<close>

lemma modify_pruned: "pruned_desc (ClassDesc (fst (modify_class_desc cfg c nm))) (ClassDesc c)"
proof (cases "get_skips cfg nm")
  case (Inl e)
  then show ?thesis by (simp add: modify_class_desc_def)
next
  case (Inr skips)
  have a: "subseq (fst (attrs_loop skips (attrs c) (attrs c))) (attrs c)"
    by (rule attrs_loop_subseq) simp
  have m: "subseq (fst (methods_loop skips (methods c) (methods c))) (methods c)"
    by (rule methods_loop_subseq) simp
  show ?thesis using Inr a m
    by (auto simp: modify_class_desc_def split: prod.splits option.splits)
qed

lemma subseq_distinct_keys: "subseq d' d \<Longrightarrow> distinct (map fst d) \<Longrightarrow> distinct (map fst d')"
  using subseqs_distinctD[of "map fst d'" "map fst d"] subseq_map[of d' d fst] by simp

lemma pruned_wf: "pruned_desc d' d \<Longrightarrow> wf_desc d \<Longrightarrow> wf_desc d'"
  by (cases d'; cases d) (auto simp: wf_class_def intro: subseq_distinct_keys)

lemma modify_wf_form:
  "wf_class c \<Longrightarrow> modify_class_desc cfg c nm =
     (case get_skips cfg nm of
        Inl e \<Rightarrow> (c, Some e)
      | Inr skips \<Rightarrow>
          (case prune (\<lambda>kv. first_match skips (snd kv)) (attrs c) of
             (a', Some e) \<Rightarrow> (c\<lparr>attrs := a'\<rparr>, Some e)
           | (a', None) \<Rightarrow>
               (case prune (method_check skips) (methods c) of
                  (m', e) \<Rightarrow> (c\<lparr>attrs := a', methods := m'\<rparr>, e))))"
  by (simp add: modify_class_desc_def wf_class_def attrs_loop_prune methods_loop_prune
      split: sum.splits)

lemma modify_idem:
  assumes "wf_class c"
  shows "modify_class_desc cfg (fst (modify_class_desc cfg c nm)) nm = modify_class_desc cfg c nm"
proof -
  have wf': "wf_class (fst (modify_class_desc cfg c nm))"
    using pruned_wf[OF modify_pruned[of cfg c nm]] assms by simp
  show ?thesis
  proof (cases "get_skips cfg nm")
    case (Inl e)
    then show ?thesis by (simp add: modify_class_desc_def)
  next
    case (Inr skips)
    let ?pa = "prune (\<lambda>kv. first_match skips (snd kv))"
    let ?pm = "prune (method_check skips)"
    obtain a' ea where pa: "?pa (attrs c) = (a', ea)" by (cases "?pa (attrs c)")
    have pa': "?pa a' = (a', ea)"
      using prune_idem[of "\<lambda>kv. first_match skips (snd kv)" "attrs c"] pa by simp
    show ?thesis
    proof (cases ea)
      case (Some e)
      have 1: "modify_class_desc cfg c nm = (c\<lparr>attrs := a'\<rparr>, Some e)"
        using modify_wf_form[OF assms, of cfg nm] Inr pa Some by simp
      then have "wf_class (c\<lparr>attrs := a'\<rparr>)" using wf' by simp
      from modify_wf_form[OF this, of cfg nm] Inr pa' Some 1 show ?thesis by simp
    next
      case None
      obtain m' em where pm: "?pm (methods c) = (m', em)" by (cases "?pm (methods c)")
      have pm': "?pm m' = (m', em)" using prune_idem[of "method_check skips" "methods c"] pm by simp
      have 1: "modify_class_desc cfg c nm = (c\<lparr>attrs := a', methods := m'\<rparr>, em)"
        using modify_wf_form[OF assms, of cfg nm] Inr pa None pm by simp
      then have "wf_class (c\<lparr>attrs := a', methods := m'\<rparr>)" using wf' by simp
      from modify_wf_form[OF this, of cfg nm] Inr pa' None pm' 1 show ?thesis by simp
    qed
  qed
qed

lemma modify_no_exn:
  assumes "wf_class c" and "get_skips cfg nm = Inr skips"
    and "\<forall>m\<in>set skips. \<forall>t. absorbed m t"
  shows "snd (modify_class_desc cfg c nm) = None"
proof -
  have a: "\<forall>kv\<in>set (attrs c). \<exists>b. first_match skips (snd kv) = Inr b"
    using first_match_returns assms(3) by blast
  have m: "\<forall>kv\<in>set (methods c). \<exists>b. method_check skips kv = Inr b"
    using method_check_returns[OF assms(3)] by blast
  show ?thesis
    using modify_wf_form[OF assms(1), of cfg nm] assms(2)
      prune_no_exn[OF a] prune_no_exn[OF m]
    by simp
qed

text \<open>
  C4: the checks on one method are the list \<open>probes\<close> read from the left up to its
  first match or exception: the return type against every matcher, then the types of
  the parameters, in order, against every matcher, and nothing after the first match.
  A match on the return type deletes the method whatever the parameters are. Only the
  types of the parameters count: two keys whose parameters have the same types are
  treated alike. On a dictionary (distinct keys) the loop over the methods and the loop
  over the attributes, which delete while they walk a copy, are the single pass
  \<open>prune\<close>: every entry is looked at once, in order, and no deletion raises or hides an
  entry; when no check raises, what is left are the entries whose check found no match.
\<close>

theorem method_pass_order:
  "method_check skips (k, r) = first_hit (probes skips (k, r))
   \<and> (first_match skips r = Inr True \<longrightarrow> method_check skips (k, r) = Inr True)
   \<and> (map ptype (snd k) = map ptype (snd k') \<longrightarrow>
        method_check skips (k, r) = method_check skips (k', r))
   \<and> (distinct (map fst ms) \<longrightarrow> methods_loop skips ms ms = prune (method_check skips) ms)
   \<and> (distinct (map fst ats) \<longrightarrow>
        attrs_loop skips ats ats = prune (\<lambda>kv. first_match skips (snd kv)) ats)
   \<and> (distinct (map fst ms) \<and> (\<forall>kv\<in>set ms. \<exists>b. method_check skips kv = Inr b) \<longrightarrow>
        methods_loop skips ms ms = (filter (\<lambda>kv. method_check skips kv = Inr False) ms, None))"
proof (intro conjI impI)
  show "method_check skips (k, r) = first_hit (probes skips (k, r))"
    by (rule method_check_first_hit)
  show "method_check skips (k, r) = Inr True" if "first_match skips r = Inr True"
    using that by simp
  show "method_check skips (k, r) = method_check skips (k', r)"
    if "map ptype (snd k) = map ptype (snd k')"
    using probes_types[OF that, of skips r] by (simp only: method_check_first_hit)
  show "methods_loop skips ms ms = prune (method_check skips) ms" if "distinct (map fst ms)"
    using that by (rule methods_loop_prune)
  show "attrs_loop skips ats ats = prune (\<lambda>kv. first_match skips (snd kv)) ats"
    if "distinct (map fst ats)"
    using that by (rule attrs_loop_prune)
  show "methods_loop skips ms ms = (filter (\<lambda>kv. method_check skips kv = Inr False) ms, None)"
    if "distinct (map fst ms) \<and> (\<forall>kv\<in>set ms. \<exists>b. method_check skips kv = Inr b)"
    using that methods_loop_prune[of ms skips] prune_no_exn[of ms "method_check skips"] by simp
qed

text \<open>
  The witness: with the matchers \<open>float64\<close> and one that always raises, the method \<open>f\<close>
  is deleted on its return type by the first matcher, so the second is never reached;
  with the matcher \<open>float64\<close> alone, the method pass of the example class deletes \<open>f\<close>
  and keeps \<open>g\<close>, and the attribute pass deletes \<open>x\<close> and keeps \<open>n\<close>.
\<close>

theorem method_pass_order_witness:
  "first_match [exact_matcher (Str ''float64''), other_raising_matcher]
       (Tup [Tup [Str ''vector'', Str ''float64'', Str ''const''], Str ''&'']) = Inr True
   \<and> method_check [exact_matcher (Str ''float64''), other_raising_matcher]
       ((''f'', [\<lparr>pname = ''n'', ptype = Str ''int32'', pdefault = None\<rparr>]),
        Tup [Tup [Str ''vector'', Str ''float64'', Str ''const''], Str ''&'']) = Inr True
   \<and> method_check [exact_matcher (Str ''float64'')]
       ((''g'', [\<lparr>pname = ''a'', ptype = Str ''float64'', pdefault = None\<rparr>]), NoneVal)
     = method_check [exact_matcher (Str ''float64'')]
       ((''g'', [\<lparr>pname = ''float64'', ptype = Str ''float64'', pdefault = Some (Str ''int32'')\<rparr>]),
        NoneVal)
   \<and> distinct (map fst (methods example_class))
   \<and> distinct (map fst (attrs example_class))
   \<and> methods_loop [exact_matcher (Str ''float64'')] (methods example_class) (methods example_class)
     = ([((''g'', [\<lparr>pname = ''a'', ptype = Str ''int32'', pdefault = None\<rparr>,
                  \<lparr>pname = ''b'', ptype = Str ''classA'', pdefault = Some (IntVal 0)\<rparr>]),
          NoneVal)], None)
   \<and> attrs_loop [exact_matcher (Str ''float64'')] (attrs example_class) (attrs example_class)
     = ([(''n'', Str ''int32'')], None)"
proof -
  let ?fl = "exact_matcher (Str ''float64'')"
  let ?ret = "Tup [Tup [Str ''vector'', Str ''float64'', Str ''const''], Str ''&'']"
  let ?kf = "(''f'', [\<lparr>pname = ''n'', ptype = Str ''int32'', pdefault = None\<rparr>])"
  let ?kg = "(''g'', [\<lparr>pname = ''a'', ptype = Str ''float64'', pdefault = None\<rparr>])"
  let ?kg' = "(''g'', [\<lparr>pname = ''float64'', ptype = Str ''float64'',
                         pdefault = Some (Str ''int32'')\<rparr>])"
  let ?ms = "methods example_class"
  let ?ats = "attrs example_class"
  have h1: "first_match [?fl, other_raising_matcher] ?ret = Inr True"
    by (simp add: match_anywhere_def else_clause_def exact_matcher_def)
  have h2: "map ptype (snd ?kg) = map ptype (snd ?kg')" by simp
  have h3: "distinct (map fst ?ms)" and h4: "distinct (map fst ?ats)"
    by (simp_all add: example_class_def)
  have h5: "\<forall>kv\<in>set ?ms. \<exists>b. method_check [?fl] kv = Inr b"
    by (auto simp: example_class_def match_anywhere_def else_clause_def exact_matcher_def)
  from method_pass_order [of "[?fl, other_raising_matcher]" ?kf ?ret ?kf "[]" "[]"] h1
  have a: "method_check [?fl, other_raising_matcher] (?kf, ?ret) = Inr True" by blast
  note T = method_pass_order [of "[?fl]" ?kg NoneVal ?kg' ?ms ?ats]
  from T h2 have b: "method_check [?fl] (?kg, NoneVal) = method_check [?fl] (?kg', NoneVal)"
    by blast
  from T h3 h5
  have "methods_loop [?fl] ?ms ?ms = (filter (\<lambda>kv. method_check [?fl] kv = Inr False) ?ms, None)"
    by blast
  then have c: "methods_loop [?fl] ?ms ?ms
     = ([((''g'', [\<lparr>pname = ''a'', ptype = Str ''int32'', pdefault = None\<rparr>,
                  \<lparr>pname = ''b'', ptype = Str ''classA'', pdefault = Some (IntVal 0)\<rparr>]),
          NoneVal)], None)"
    by (simp add: example_class_def match_anywhere_def else_clause_def exact_matcher_def)
  from T h4
  have "attrs_loop [?fl] ?ats ?ats = prune (\<lambda>kv. first_match [?fl] (snd kv)) ?ats" by blast
  then have d: "attrs_loop [?fl] ?ats ?ats = ([(''n'', Str ''int32'')], None)"
    by (simp add: example_class_def match_anywhere_def else_clause_def exact_matcher_def)
  from h1 a b h3 h4 c d show ?thesis by (intro conjI)
qed

section \<open>Properties of \<^verbatim>\<open>execute\<close>\<close>

subsection \<open>The loop over the items of a dictionary\<close>

lemma for_items_rel:
  "\<forall>v\<in>snd ` set d. R (fst (body v)) v \<Longrightarrow> \<forall>v\<in>snd ` set d. R v v \<Longrightarrow>
   list_all2 (\<lambda>kv' kv. fst kv' = fst kv \<and> R (snd kv') (snd kv)) (fst (for_items body d)) d"
proof (induction d)
  case Nil
  then show ?case by simp
next
  case (Cons kv d)
  obtain k v where kv: "kv = (k, v)" by (cases kv)
  have refl: "list_all2 (\<lambda>kv' kv. fst kv' = fst kv \<and> R (snd kv') (snd kv)) d d"
    using Cons.prems(2) by (auto simp: list_all2_same)
  show ?case using Cons refl
    by (auto simp: kv split: prod.splits option.splits)
qed

lemma for_items_id:
  "\<forall>v\<in>snd ` set d. body v = (v, None) \<Longrightarrow> for_items body d = (d, None)"
proof (induction d)
  case Nil
  then show ?case by simp
next
  case (Cons kv d)
  obtain k v where kv: "kv = (k, v)" by (cases kv)
  show ?case using Cons by (auto simp: kv)
qed

lemma for_items_cong:
  "\<forall>v\<in>snd ` set d. body v = body' v \<Longrightarrow> for_items body d = for_items body' d"
proof (induction d)
  case Nil
  then show ?case by simp
next
  case (Cons kv d)
  obtain k v where kv: "kv = (k, v)" by (cases kv)
  show ?case using Cons by (auto simp: kv split: prod.splits option.splits)
qed

lemma for_items_no_exn:
  "\<forall>v\<in>snd ` set d. snd (body v) = None \<Longrightarrow> snd (for_items body d) = None"
proof (induction d)
  case Nil
  then show ?case by simp
next
  case (Cons kv d)
  obtain k v where kv: "kv = (k, v)" by (cases kv)
  show ?case using Cons by (auto simp: kv split: prod.splits option.splits)
qed

lemma for_items_pres:
  "\<forall>v\<in>snd ` set d. P v \<Longrightarrow> \<forall>v\<in>snd ` set d. P v \<longrightarrow> P (fst (body v)) \<Longrightarrow>
   \<forall>v\<in>snd ` set (fst (for_items body d)). P v"
proof (induction d)
  case Nil
  then show ?case by simp
next
  case (Cons kv d)
  obtain k v where kv: "kv = (k, v)" by (cases kv)
  show ?case using Cons by (auto simp: kv split: prod.splits option.splits)
qed

lemma for_items_idem:
  "\<forall>v\<in>snd ` set d. body (fst (body v)) = body v \<Longrightarrow>
   for_items body (fst (for_items body d)) = for_items body d"
proof (induction d)
  case Nil
  then show ?case by simp
next
  case (Cons kv d)
  obtain k v where kv: "kv = (k, v)" by (cases kv)
  obtain v' e where b: "body v = (v', e)" by (cases "body v")
  have b': "body v' = (v', e)" using Cons.prems b by (auto simp: kv)
  show ?case using Cons b b' by (cases e) (auto simp: kv split: prod.splits option.splits)
qed

lemma wf_env_iff: "wf_env env = (\<forall>m\<in>snd ` set env. \<forall>d\<in>snd ` set m. wf_desc d)"
  by (auto simp: wf_env_def list_all_iff)

lemma class_names_iff:
  "(n \<in> set (class_names env)) = (\<exists>m\<in>snd ` set env. \<exists>c. ClassDesc c \<in> snd ` set m \<and> name c = n)"
proof -
  have dn: "\<And>d. (n \<in> set (desc_names d)) = (\<exists>c. d = ClassDesc c \<and> name c = n)"
    by (case_tac d) auto
  show ?thesis
    unfolding class_names_def by (force simp: dn)
qed

lemma nested_rel:
  assumes "\<And>d. R (fst (body d)) d" and "\<And>d. R d d"
  shows "env_rel R (fst (for_items (for_items body) env)) env"
proof -
  let ?Rm = "\<lambda>m' m. list_all2 (\<lambda>d' d. fst d' = fst d \<and> R (snd d') (snd d)) m' m"
  have 1: "\<forall>m\<in>snd ` set env. ?Rm (fst (for_items body m)) m"
    using for_items_rel[of _ R body] assms by blast
  have 2: "\<forall>m\<in>snd ` set env. ?Rm m m"
    using assms(2) by (simp add: list_all2_same)
  from for_items_rel[of env ?Rm "for_items body", OF 1 2] show ?thesis
    by (simp add: env_rel_def)
qed

lemma nested_id:
  assumes "\<forall>m\<in>snd ` set env. \<forall>d\<in>snd ` set m. body d = (d, None)"
  shows "for_items (for_items body) env = (env, None)"
  by (rule for_items_id) (use assms for_items_id[of _ body] in blast)

lemma nested_cong:
  assumes "\<forall>m\<in>snd ` set env. \<forall>d\<in>snd ` set m. body d = body' d"
  shows "for_items (for_items body) env = for_items (for_items body') env"
  by (rule for_items_cong) (use assms for_items_cong[of _ body body'] in blast)

lemma nested_no_exn:
  assumes "\<forall>m\<in>snd ` set env. \<forall>d\<in>snd ` set m. snd (body d) = None"
  shows "snd (for_items (for_items body) env) = None"
proof (rule for_items_no_exn, intro ballI)
  fix m assume "m \<in> snd ` set env"
  with assms have "\<forall>d\<in>snd ` set m. snd (body d) = None" by (rule bspec)
  then show "snd (for_items body m) = None" by (rule for_items_no_exn)
qed

lemma nested_idem:
  assumes "\<forall>m\<in>snd ` set env. \<forall>d\<in>snd ` set m. body (fst (body d)) = body d"
  shows "for_items (for_items body) (fst (for_items (for_items body) env))
         = for_items (for_items body) env"
  by (rule for_items_idem) (use assms for_items_idem[of _ body] in blast)

subsection \<open>The bodies of the loops and the whole pass\<close>

lemma pruned_desc_refl: "pruned_desc d d"
  by (cases d) simp_all

lemma list_body_pruned: "pruned_desc (fst (list_body cfg d)) d"
proof (cases d)
  case (ClassDesc c)
  then show ?thesis
    using modify_pruned[of cfg c None] by (auto split: prod.splits)
next
  case (OtherDesc x)
  then show ?thesis by simp
qed

lemma dict_body_pruned: "pruned_desc (fst (dict_body cfg keys d)) d"
proof (cases d)
  case (ClassDesc c)
  then show ?thesis
    using modify_pruned[of cfg c "Some (name c)"] by (auto split: prod.splits)
next
  case (OtherDesc x)
  then show ?thesis by simp
qed

lemma execute_pruned: "env_rel pruned_desc (fst (execute cfg env)) env"
proof -
  have refl: "env_rel pruned_desc env env"
    by (simp add: env_rel_def list_all2_same pruned_desc_refl)
  show ?thesis
  proof (cases cfg)
    case (DictCfg d)
    then show ?thesis
      using nested_rel[of pruned_desc "dict_body (DictCfg d) (map fst d)" env]
      by (simp add: dict_body_pruned pruned_desc_refl)
  next
    case (ListCfg ms)
    then show ?thesis
      using nested_rel[of pruned_desc "list_body (ListCfg ms)" env]
      by (simp add: list_body_pruned pruned_desc_refl)
  qed (simp_all add: refl)
qed

lemma env_rel_wf:
  assumes "env_rel pruned_desc env' env" and "wf_env env"
  shows "wf_env env'"
proof -
  have inner: "list_all (\<lambda>d. wf_desc (snd d)) m'"
    if "list_all2 (\<lambda>d' d. fst d' = fst d \<and> pruned_desc (snd d') (snd d)) m' m"
      and "list_all (\<lambda>d. wf_desc (snd d)) m" for m' m :: "(string \<times> desc) list"
    using that
    by (induction m' m rule: list_all2_induct) (auto intro: pruned_wf)
  show ?thesis
    using assms unfolding env_rel_def wf_env_def
    by (induction env' env rule: list_all2_induct) (auto intro: inner)
qed

lemma list_body_idem:
  "wf_desc d \<Longrightarrow> list_body cfg (fst (list_body cfg d)) = list_body cfg d"
proof (cases d)
  case (ClassDesc c)
  assume "wf_desc d"
  with ClassDesc have "wf_class c" by simp
  from modify_idem[OF this, of cfg None] ClassDesc show ?thesis
    by (auto split: prod.splits)
next
  case (OtherDesc x)
  then show ?thesis by simp
qed

lemma modify_name: "name (fst (modify_class_desc cfg c nm)) = name c"
  using modify_pruned[of cfg c nm] by simp

lemma dict_body_idem:
  "wf_desc d \<Longrightarrow> dict_body cfg keys (fst (dict_body cfg keys d)) = dict_body cfg keys d"
proof (cases d)
  case (ClassDesc c)
  assume "wf_desc d"
  with ClassDesc have "wf_class c" by simp
  from modify_idem[OF this, of cfg "Some (name c)"] modify_name[of cfg c "Some (name c)"]
    ClassDesc show ?thesis
    by (auto split: prod.splits)
next
  case (OtherDesc x)
  then show ?thesis by simp
qed

lemma execute_idem: "wf_env env \<Longrightarrow> execute cfg (fst (execute cfg env)) = execute cfg env"
proof (cases cfg)
  case (DictCfg d)
  assume "wf_env env"
  then show ?thesis
    using nested_idem[of env "dict_body (DictCfg d) (map fst d)"] DictCfg
    by (simp add: wf_env_iff dict_body_idem)
next
  case (ListCfg ms)
  assume "wf_env env"
  then show ?thesis
    using nested_idem[of env "list_body (ListCfg ms)"] ListCfg
    by (simp add: wf_env_iff list_body_idem)
qed simp_all

lemma list_body_no_exn:
  "wf_desc d \<Longrightarrow> \<forall>m\<in>set ms. \<forall>t. absorbed m t \<Longrightarrow> snd (list_body (ListCfg ms) d) = None"
proof (cases d)
  case (ClassDesc c)
  assume "wf_desc d" and a: "\<forall>m\<in>set ms. \<forall>t. absorbed m t"
  with ClassDesc have "wf_class c" by simp
  from modify_no_exn[OF this, of "ListCfg ms" None ms] a ClassDesc show ?thesis
    by (auto split: prod.splits)
next
  case (OtherDesc x)
  then show ?thesis by simp
qed

lemma dict_body_no_exn:
  assumes "wf_desc d" and "\<forall>m\<in>set (concat (map snd D)). \<forall>t. absorbed m t"
  shows "snd (dict_body (DictCfg D) (map fst D) d) = None"
proof (cases d)
  case (ClassDesc c)
  with assms have wf: "wf_class c" by simp
  show ?thesis
  proof (cases "name c \<in> set (map fst D)")
    case True
    then obtain ms where ms: "map_of D (name c) = Some ms"
      by (metis map_of_eq_None_iff not_Some_eq set_map)
    then have "ms \<in> snd ` set D" by (metis map_of_SomeD snd_conv image_eqI)
    then have "\<forall>m\<in>set ms. \<forall>t. absorbed m t" using assms(2) by auto
    from modify_no_exn[OF wf _ this, of "DictCfg D" "Some (name c)"] ms ClassDesc True
    show ?thesis by (auto split: prod.splits)
  next
    case False
    with ClassDesc show ?thesis by simp
  qed
next
  case (OtherDesc x)
  then show ?thesis by simp
qed

lemma execute_no_exn:
  assumes "wf_env env" and "\<forall>m\<in>set (matchers_of cfg). \<forall>t. absorbed m t"
  shows "snd (execute cfg env) = None"
proof (cases cfg)
  case (DictCfg D)
  then show ?thesis
    using nested_no_exn[of env "dict_body (DictCfg D) (map fst D)"] assms
    by (simp add: wf_env_iff dict_body_no_exn)
next
  case (ListCfg ms)
  then show ?thesis
    using nested_no_exn[of env "list_body (ListCfg ms)"] assms
    by (simp add: wf_env_iff list_body_no_exn)
qed simp_all

lemma modify_cong:
  "get_skips cfg nm = get_skips cfg' nm \<Longrightarrow> modify_class_desc cfg c nm = modify_class_desc cfg' c nm"
  by (simp add: modify_class_desc_def)

lemma map_of_setup:
  "map_of (map (\<lambda>(kls, ts). (kls, map mk ts)) raw) n = map_option (map mk) (map_of raw n)"
  by (induction raw) auto

lemma keys_setup: "map fst (map (\<lambda>(kls, ts). (kls, map mk ts)) raw) = map fst raw"
  by (induction raw) auto

lemma in_keys_map_of: "(n \<in> set (map fst raw)) = (map_of raw n \<noteq> None)"
  by (simp add: map_of_eq_None_iff)

lemma dict_body_agree:
  assumes "map_of raw (name c) = map_of raw' (name c)"
  shows "dict_body (plugin_setup mk (DictCfg raw)) (map fst raw) (ClassDesc c)
       = dict_body (plugin_setup mk (DictCfg raw')) (map fst raw') (ClassDesc c)"
proof -
  have "get_skips (plugin_setup mk (DictCfg raw)) (Some (name c))
      = get_skips (plugin_setup mk (DictCfg raw')) (Some (name c))"
    using assms by (simp add: map_of_setup)
  moreover have "(name c \<in> set (map fst raw)) = (name c \<in> set (map fst raw'))"
    using assms by (simp only: in_keys_map_of)
  ultimately show ?thesis
    using modify_cong[of "plugin_setup mk (DictCfg raw)" "Some (name c)"
        "plugin_setup mk (DictCfg raw')" c]
    by (simp only: dict_body.simps)
qed

lemma execute_dict_agree:
  assumes "\<forall>n\<in>set (class_names env). map_of raw n = map_of raw' n"
  shows "execute (plugin_setup mk (DictCfg raw)) env = execute (plugin_setup mk (DictCfg raw')) env"
proof -
  have "\<forall>m\<in>snd ` set env. \<forall>d\<in>snd ` set m.
          dict_body (plugin_setup mk (DictCfg raw)) (map fst raw) d
        = dict_body (plugin_setup mk (DictCfg raw')) (map fst raw') d"
  proof (intro ballI)
    fix m d assume m: "m \<in> snd ` set env" and d: "d \<in> snd ` set m"
    show "dict_body (plugin_setup mk (DictCfg raw)) (map fst raw) d
        = dict_body (plugin_setup mk (DictCfg raw')) (map fst raw') d"
    proof (cases d)
      case (ClassDesc c)
      then have "name c \<in> set (class_names env)"
        using m d class_names_iff[of "name c" env] by blast
      with assms ClassDesc show ?thesis using dict_body_agree by blast
    next
      case (OtherDesc x)
      then show ?thesis by simp
    qed
  qed
  from nested_cong[OF this] show ?thesis by (simp add: keys_setup del: map_map)
qed

lemma execute_empty_list: "execute (ListCfg []) env = (env, None)"
proof -
  have "for_items (for_items (list_body (ListCfg []))) env = (env, None)"
  proof (rule nested_id, intro ballI)
    fix m d show "list_body (ListCfg []) d = (d, None)"
      by (cases d) (simp_all add: modify_no_skips)
  qed
  then show ?thesis by simp
qed

lemma execute_empty_dict: "execute (DictCfg []) env = (env, None)"
proof -
  have "for_items (for_items (dict_body (DictCfg []) [])) env = (env, None)"
  proof (rule nested_id, intro ballI)
    fix m d show "dict_body (DictCfg []) [] d = (d, None)"
      by (cases d) simp_all
  qed
  then show ?thesis by simp
qed

lemmas example_defs = example_env_def example_class_def vector_class_def exact_matcher_def
  match_anywhere_def else_clause_def modify_class_desc_def dict_del_def

lemma wf_example_env: "wf_env example_env"
  by (simp add: wf_env_def wf_class_def example_env_def example_class_def)

lemma absorbed_composite_raising: "absorbed composite_raising_matcher t"
  by (cases t) (auto simp: absorbed_def composite_raising_matcher_def split: bool.splits)

subsection \<open>The claims about the whole pass\<close>

text \<open>
  C6: when \<^verbatim>\<open>rc.skiptypes\<close> is the unset sentinel, \<^verbatim>\<open>None\<close>, an empty dictionary, an
  empty list or an empty tuple, \<^verbatim>\<open>setup\<close> followed by \<^verbatim>\<open>execute\<close> leaves every model as
  it is and raises nothing.
\<close>

theorem empty_config_no_change:
  "cfg \<in> {NotSpecified, NoneCfg, DictCfg [], ListCfg [], TupleCfg []} \<Longrightarrow>
   execute (plugin_setup mk cfg) env = (env, None)"
  using execute_empty_list[of env] execute_empty_dict[of env] by auto

theorem empty_config_no_change_witness:
  "execute (plugin_setup exact_matcher NotSpecified) example_env = (example_env, None)
   \<and> execute (plugin_setup exact_matcher NoneCfg) example_env = (example_env, None)
   \<and> execute (plugin_setup exact_matcher (DictCfg [])) example_env = (example_env, None)
   \<and> execute (plugin_setup exact_matcher (ListCfg [])) example_env = (example_env, None)
   \<and> execute (plugin_setup exact_matcher (TupleCfg [])) example_env = (example_env, None)"
proof -
  note T = empty_config_no_change [of _ exact_matcher example_env]
  have "execute (plugin_setup exact_matcher NotSpecified) example_env = (example_env, None)"
    by (rule T) simp
  moreover
  have "execute (plugin_setup exact_matcher NoneCfg) example_env = (example_env, None)"
    by (rule T) simp
  moreover
  have "execute (plugin_setup exact_matcher (DictCfg [])) example_env = (example_env, None)"
    by (rule T) simp
  moreover
  have "execute (plugin_setup exact_matcher (ListCfg [])) example_env = (example_env, None)"
    by (rule T) simp
  moreover
  have "execute (plugin_setup exact_matcher (TupleCfg [])) example_env = (example_env, None)"
    by (rule T) simp
  ultimately show ?thesis by (intro conjI)
qed

text \<open>
  C9: after \<^verbatim>\<open>execute\<close>, whether it ended normally or by an exception, the model has
  the module keys and the entity keys it had, a description that is not a class is as
  it was, and a class description has its name and, of its attributes and methods, a
  subsequence of the entries it had (nothing added, nothing changed). The dictionaries
  of a well-formed model are still dictionaries afterwards.
\<close>

theorem execute_preserves_shape:
  "env_rel pruned_desc (fst (execute cfg env)) env
   \<and> (wf_env env \<longrightarrow> wf_env (fst (execute cfg env)))"
  using execute_pruned[of cfg env] env_rel_wf[of "fst (execute cfg env)" env] by blast

theorem execute_preserves_shape_witness:
  "wf_env example_env
   \<and> fst (execute (ListCfg [exact_matcher (Str ''float64'')]) example_env) =
       [(''mod'',
         [(''Blah'', ClassDesc
            \<lparr>name = ''Blah'',
             attrs = [(''n'', Str ''int32'')],
             methods =
               [((''g'', [\<lparr>pname = ''a'', ptype = Str ''int32'', pdefault = None\<rparr>,
                         \<lparr>pname = ''b'', ptype = Str ''classA'', pdefault = Some (IntVal 0)\<rparr>]),
                 NoneVal)]\<rparr>),
          (''foo'', OtherDesc [])])]
   \<and> env_rel pruned_desc
        (fst (execute (ListCfg [exact_matcher (Str ''float64'')]) example_env)) example_env
   \<and> wf_env (fst (execute (ListCfg [exact_matcher (Str ''float64'')]) example_env))"
proof -
  note wf = wf_example_env
  have ev: "fst (execute (ListCfg [exact_matcher (Str ''float64'')]) example_env) =
       [(''mod'',
         [(''Blah'', ClassDesc
            \<lparr>name = ''Blah'',
             attrs = [(''n'', Str ''int32'')],
             methods =
               [((''g'', [\<lparr>pname = ''a'', ptype = Str ''int32'', pdefault = None\<rparr>,
                         \<lparr>pname = ''b'', ptype = Str ''classA'', pdefault = Some (IntVal 0)\<rparr>]),
                 NoneVal)]\<rparr>),
          (''foo'', OtherDesc [])])]"
    by (simp add: example_defs)
  from execute_preserves_shape [of "ListCfg [exact_matcher (Str ''float64'')]" example_env] wf ev
  show ?thesis by blast
qed

text \<open>
  C7: under a dictionary configuration, every description that is not a class named by
  a key is the same after \<^verbatim>\<open>execute\<close> as before, and no key of the model is added or
  removed; the result depends on the configuration only through the lists it gives to
  the names of the classes of the model, so a key that names no class changes nothing;
  and when no key names a class of the model the call returns the model as it was and
  raises nothing.
\<close>

theorem per_entity_frame:
  "env_rel (\<lambda>d' d. targeted (map fst raw) d \<or> d' = d)
     (fst (execute (plugin_setup mk (DictCfg raw)) env)) env
   \<and> ((\<forall>n\<in>set (class_names env). map_of raw n = map_of raw' n) \<longrightarrow>
        execute (plugin_setup mk (DictCfg raw)) env = execute (plugin_setup mk (DictCfg raw')) env)
   \<and> ((\<forall>n\<in>set (class_names env). n \<notin> fst ` set raw) \<longrightarrow>
        execute (plugin_setup mk (DictCfg raw)) env = (env, None))"
proof (intro conjI impI)
  let ?D = "map (\<lambda>(kls, ts). (kls, map mk ts)) raw"
  have "env_rel (\<lambda>d' d. targeted (map fst raw) d \<or> d' = d)
          (fst (for_items (for_items (dict_body (DictCfg ?D) (map fst raw))) env)) env"
  proof (rule nested_rel)
    fix d show "targeted (map fst raw) d \<or> fst (dict_body (DictCfg ?D) (map fst raw) d) = d"
      by (cases d) auto
  qed simp
  then show "env_rel (\<lambda>d' d. targeted (map fst raw) d \<or> d' = d)
     (fst (execute (plugin_setup mk (DictCfg raw)) env)) env"
    by (simp add: keys_setup del: map_map)
next
  assume "\<forall>n\<in>set (class_names env). map_of raw n = map_of raw' n"
  then show "execute (plugin_setup mk (DictCfg raw)) env = execute (plugin_setup mk (DictCfg raw')) env"
    by (rule execute_dict_agree)
next
  assume "\<forall>n\<in>set (class_names env). n \<notin> fst ` set raw"
  then have "\<forall>n\<in>set (class_names env). map_of raw n = map_of [] n"
    by (simp add: map_of_eq_None_iff)
  then have "execute (plugin_setup mk (DictCfg raw)) env = execute (plugin_setup mk (DictCfg [])) env"
    by (rule execute_dict_agree)
  also have "\<dots> = (env, None)"
    using execute_empty_dict[of env] by simp
  finally show "execute (plugin_setup mk (DictCfg raw)) env = (env, None)" .
qed

theorem per_entity_frame_witness:
  "execute (plugin_setup exact_matcher (DictCfg [(''Other'', [Str ''int32''])])) example_env
     = (example_env, None)
   \<and> execute (plugin_setup exact_matcher
         (DictCfg [(''Other'', [Str ''int32'']), (''Blah'', [Str ''float64''])])) example_env
     = execute (plugin_setup exact_matcher (DictCfg [(''Blah'', [Str ''float64''])])) example_env
   \<and> env_rel (\<lambda>d' d. targeted [''Other''] d \<or> d' = d)
        (fst (execute (plugin_setup exact_matcher (DictCfg [(''Other'', [Str ''int32''])]))
           example_env)) example_env"
proof -
  have names: "class_names example_env = [''Blah'']"
    by (simp add: class_names_def example_env_def example_class_def)
  have h1: "\<forall>n\<in>set (class_names example_env). n \<notin> fst ` set [(''Other'', [Str ''int32''])]"
    by (simp add: names)
  have h2: "\<forall>n\<in>set (class_names example_env).
      map_of [(''Other'', [Str ''int32'']), (''Blah'', [Str ''float64''])] n
      = map_of [(''Blah'', [Str ''float64''])] n"
    by (simp add: names)
  have a: "execute (plugin_setup exact_matcher (DictCfg [(''Other'', [Str ''int32''])])) example_env
     = (example_env, None)"
    using per_entity_frame [of "[(''Other'', [Str ''int32''])]" exact_matcher example_env "[]"] h1
    by blast
  have b: "execute (plugin_setup exact_matcher
         (DictCfg [(''Other'', [Str ''int32'']), (''Blah'', [Str ''float64''])])) example_env
     = execute (plugin_setup exact_matcher (DictCfg [(''Blah'', [Str ''float64''])])) example_env"
    using per_entity_frame [of "[(''Other'', [Str ''int32'']), (''Blah'', [Str ''float64''])]"
      exact_matcher example_env "[(''Blah'', [Str ''float64''])]"] h2
    by blast
  have c: "env_rel (\<lambda>d' d. targeted (map fst [(''Other'', [Str ''int32''])]) d \<or> d' = d)
        (fst (execute (plugin_setup exact_matcher (DictCfg [(''Other'', [Str ''int32''])]))
           example_env)) example_env"
    using per_entity_frame [of "[(''Other'', [Str ''int32''])]" exact_matcher example_env "[]"]
    by blast
  have k: "map fst [(''Other'', [Str ''int32''])] = [''Other'']" by simp
  from a b c show ?thesis unfolding k by (intro conjI)
qed

text \<open>
  C8: a matcher is a function of the candidate, so it gives the same answer every time.
  On a well-formed model a second \<^verbatim>\<open>execute\<close> with the same compiled configuration
  leaves the model the first one produced as it is, and ends as the first one ended.
\<close>

theorem filter_idempotent:
  "wf_env env \<Longrightarrow>
     fst (execute (plugin_setup mk raw) (fst (execute (plugin_setup mk raw) env)))
       = fst (execute (plugin_setup mk raw) env)
   \<and> snd (execute (plugin_setup mk raw) (fst (execute (plugin_setup mk raw) env)))
       = snd (execute (plugin_setup mk raw) env)"
  using execute_idem[of env "plugin_setup mk raw"] by simp

theorem filter_idempotent_witness:
  "wf_env example_env
   \<and> execute (plugin_setup exact_matcher (ListCfg [Str ''float64'']))
       (fst (execute (plugin_setup exact_matcher (ListCfg [Str ''float64''])) example_env))
     = execute (plugin_setup exact_matcher (ListCfg [Str ''float64''])) example_env
   \<and> fst (execute (plugin_setup exact_matcher (ListCfg [Str ''float64''])) example_env)
       \<noteq> example_env"
proof -
  note wf = wf_example_env
  have ne: "fst (execute (plugin_setup exact_matcher (ListCfg [Str ''float64''])) example_env)
       \<noteq> example_env"
    by (simp add: example_defs)
  from filter_idempotent [OF wf, of exact_matcher "ListCfg [Str ''float64'']"] wf ne
  show ?thesis by (simp add: prod_eq_iff)
qed

text \<open>
  C3, as the spec states it, fails. A \<open>TypeError\<close> raised by the matcher on an element
  of the flattened candidate, and an exception of another class raised on the whole
  candidate, leave \<^verbatim>\<open>_match_anywhere\<close>; the first ends \<^verbatim>\<open>execute\<close> on the class \<open>Vec\<close>
  before its attribute \<open>x\<close>, which the second matcher would have removed, is looked at.
\<close>

theorem absorbed_failures_counterexample:
  "match_anywhere leaf_raising_matcher (Tup [Str ''vector'', Str ''int32'']) = Inl TypeError
   \<and> match_anywhere other_raising_matcher (Str ''int32'') = Inl OtherError
   \<and> execute (ListCfg [leaf_raising_matcher, exact_matcher (Str ''float64'')])
        [(''mod'', [(''Vec'', ClassDesc vector_class)])]
     = ([(''mod'', [(''Vec'', ClassDesc vector_class)])], Some TypeError)"
  by (simp add: example_defs leaf_raising_matcher_def other_raising_matcher_def)

text \<open>
  C3, amended: \<^verbatim>\<open>_match_anywhere\<close> returns, and raises nothing, exactly when the
  whole-candidate call raises nothing but \<open>TypeError\<close> and, if it returned false on a
  tuple or list, the matcher raises on none of the flattened elements. When this holds
  for every matcher of the configuration on every candidate, \<^verbatim>\<open>execute\<close> on a
  well-formed model raises nothing.
\<close>

theorem absorbed_failures:
  "(\<exists>r. match_anywhere m t = Inr r) = absorbed m t
   \<and> (wf_env env \<and> (\<forall>tm\<in>set (matchers_of cfg). \<forall>c. absorbed tm c) \<longrightarrow>
        snd (execute cfg env) = None)"
  using match_anywhere_returns_iff[of m t] execute_no_exn[of env cfg] by blast

theorem absorbed_failures_witness:
  "wf_env [(''mod'', [(''Vec'', ClassDesc vector_class)])]
   \<and> absorbed composite_raising_matcher (Tup [Str ''vector'', Str ''int32''])
   \<and> composite_raising_matcher (Tup [Str ''vector'', Str ''int32'']) = Inl TypeError
   \<and> match_anywhere composite_raising_matcher (Tup [Str ''vector'', Str ''int32'']) = Inr None
   \<and> execute (ListCfg [composite_raising_matcher]) [(''mod'', [(''Vec'', ClassDesc vector_class)])]
     = ([(''mod'', [(''Vec'', ClassDesc
           \<lparr>name = ''Vec'', attrs = [(''v'', Tup [Str ''vector'', Str ''int32''])],
            methods = []\<rparr>)])], None)"
proof -
  let ?env = "[(''mod'', [(''Vec'', ClassDesc vector_class)])]"
  let ?cfg = "ListCfg [composite_raising_matcher]"
  have wf: "wf_env ?env" by (simp add: wf_env_def wf_class_def vector_class_def)
  have tame: "\<forall>tm\<in>set (matchers_of ?cfg). \<forall>c. absorbed tm c"
    by (simp add: absorbed_composite_raising)
  have ev: "fst (execute ?cfg ?env) = [(''mod'', [(''Vec'', ClassDesc
           \<lparr>name = ''Vec'', attrs = [(''v'', Tup [Str ''vector'', Str ''int32''])],
            methods = []\<rparr>)])]"
    by (simp add: example_defs composite_raising_matcher_def)
  have m: "match_anywhere composite_raising_matcher (Tup [Str ''vector'', Str ''int32'']) = Inr None"
    by (simp add: match_anywhere_def composite_raising_matcher_def)
  from absorbed_failures [of composite_raising_matcher "Tup [Str ''vector'', Str ''int32'']" ?env ?cfg]
    wf tame ev m
  show ?thesis by (simp add: prod_eq_iff composite_raising_matcher_def)
qed

end
